theory Spec2Isabelle
  imports Main "HOL-Library.Monad_Syntax"
begin

section \<open>The manager and the device\<close>

text \<open>
  Modelled from the spec: device.h, manager.h and store.h are not among the sources.
  The device record has the fields of the spec's data model that auth.c reads or that
  the claims speak of; the policy and status enumerations are the spec's.
\<close>

datatype TbPolicy = TB_POLICY_MANUAL | TB_POLICY_AUTO

datatype TbStatus = Disconnected | Connected | Authorizing | Authorized | AuthError

record TbDevice =
  uid      :: string
  sysfs    :: string     \<comment> \<open>\<^verbatim>\<open>tb_device_get_sysfs_path\<close>\<close>
  in_store :: bool       \<comment> \<open>\<^verbatim>\<open>tb_device_in_store\<close>\<close>
  policy   :: TbPolicy
  status   :: TbStatus

text \<open>
  The manager: the security level that \<^verbatim>\<open>tb_manager_get_security_level\<close> returns (a C
  \<^verbatim>\<open>int\<close>, only compared and converted to \<^verbatim>\<open>char\<close>, never computed with), and the
  devices that \<^verbatim>\<open>tb_manager_lookup\<close> finds by uid.
\<close>

record TbManager =
  security_level :: int
  devices  :: "string \<rightharpoonup> TbDevice"

section \<open>The operating-system interface seen by auth.c\<close>

text \<open>
  The authorization tool of src/auth.c talks to the kernel through
  \<^verbatim>\<open>opendir\<close>, \<^verbatim>\<open>openat\<close>, \<^verbatim>\<open>open\<close>, \<^verbatim>\<open>read\<close>, \<^verbatim>\<open>write\<close> and \<^verbatim>\<open>close\<close>, and to the
  manager through \<^verbatim>\<open>tb_manager_ensure_key\<close> and \<^verbatim>\<open>tb_manager_store\<close>. What those
  calls answer is not decided by the program: the model reads the answers, in call
  order, from a list of replies held in the state, and records every call it makes
  in a trace. A call whose next reply is missing or has the wrong shape for the call
  gives \<open>None\<close>: the reply list does not describe a run of the program. A failing
  call sets \<^verbatim>\<open>errno\<close> to a positive number.
\<close>

datatype oflag = O_RDONLY | O_WRONLY

text \<open>What an open descriptor refers to.\<close>

datatype target =
    Dir string          \<comment> \<open>a directory stream of \<^verbatim>\<open>opendir (path)\<close>\<close>
  | Attr string         \<comment> \<open>a file opened with \<^verbatim>\<open>openat\<close> relative to the device directory\<close>
  | File string         \<comment> \<open>a file opened with \<^verbatim>\<open>open (path)\<close>\<close>

datatype reply =
    Ret int                      \<comment> \<open>the call succeeds and returns this value\<close>
  | Fail nat                     \<comment> \<open>the call returns -1 (or NULL) and sets \<^verbatim>\<open>errno\<close>\<close>
  | Data string                  \<comment> \<open>\<^verbatim>\<open>read\<close>: the bytes the file offers at the current offset\<close>
  | KeyReply "string option" bool \<comment> \<open>\<^verbatim>\<open>tb_manager_ensure_key\<close>: the key file's path (or NULL), and \<^verbatim>\<open>created\<close>\<close>
  | Done bool                    \<comment> \<open>\<^verbatim>\<open>tb_manager_store\<close>: its gboolean result\<close>

text \<open>How a system call ended: with a return value, or with -1 and this \<^verbatim>\<open>errno\<close>.\<close>

datatype result = Returned int | Failed nat

datatype event =
    EvAuthorize string                       \<comment> \<open>entry into \<^verbatim>\<open>tb_device_authorize\<close> for this uid\<close>
  | EvOpen target oflag result               \<comment> \<open>what was opened, and the descriptor returned\<close>
  | EvRead "target option" nat result string \<comment> \<open>descriptor's target, byte count asked, result, bytes delivered\<close>
  | EvWrite "target option" string result    \<comment> \<open>descriptor's target, bytes offered, result\<close>
  | EvClose int "target option" result       \<comment> \<open>descriptor number, its target, result\<close>
  | EvEnsureKey string bool "string option" bool
      \<comment> \<open>uid, \<^verbatim>\<open>replace\<close>, key file returned, \<^verbatim>\<open>created\<close>\<close>
  | EvStore TbDevice bool                    \<comment> \<open>the device record stored, result\<close>

text \<open>
  The \<^verbatim>\<open>GError\<close> values auth.c creates: one message per \<^verbatim>\<open>g_set_error\<close> site, and the
  error code, which is either \<^verbatim>\<open>G_IO_ERROR_FAILED\<close> or comes from \<^verbatim>\<open>errno\<close> through
  \<^verbatim>\<open>g_io_error_from_errno\<close>. The text that \<^verbatim>\<open>g_strerror\<close> and the format arguments add
  to a message is not modelled.
\<close>

datatype gio_code = G_IO_ERROR_FAILED | g_io_error_from_errno nat

datatype message =
    Could_not_close_file
  | Could_not_write_data
  | Could_not_open_file string
  | Could_not_read_from_file
  | Could_not_read_full_uid_from_file
  | Unique_id_verification_failed
  | Input_error_while_reading
  | Could_not_open_key_file
  | Could_not_read_entire_key_from_disk
  | Io_error_while_writing_key_data
  | Could_not_open_directory
  | Ensure_key_failed
  | Store_failed

datatype GError = GError (message: message) (code: gio_code)

record world =
  script :: "reply list"          \<comment> \<open>the replies still to come\<close>
  trace  :: "event list"          \<comment> \<open>the calls made so far, oldest first\<close>
  fds    :: "int \<rightharpoonup> target"      \<comment> \<open>the process's open descriptors\<close>
  errno  :: nat
  err    :: "GError option"       \<comment> \<open>the caller's \<^verbatim>\<open>GError *error\<close>, NULL as \<open>None\<close>\<close>

definition EINTR :: nat where
  "EINTR = 4"

text \<open>\<^verbatim>\<open>g_set_error\<close> stores the error only where none is stored yet.\<close>

definition g_set_error :: "message \<Rightarrow> gio_code \<Rightarrow> world \<Rightarrow> world" where
  "g_set_error m c w = (if err w = None then w\<lparr>err := Some (GError m c)\<rparr> else w)"

definition answered :: "reply list \<Rightarrow> event \<Rightarrow> world \<Rightarrow> world" where
  "answered rs e w = w\<lparr>script := rs, trace := trace w @ [e]\<rparr>"

text \<open>
  \<^verbatim>\<open>opendir\<close>, \<^verbatim>\<open>openat\<close> and \<^verbatim>\<open>open\<close>: on success the kernel returns a descriptor number
  that is not negative and not open yet. A directory stream is represented by the
  descriptor it holds, \<^verbatim>\<open>NULL\<close> by -1.
\<close>

definition sys_open :: "target \<Rightarrow> oflag \<Rightarrow> world \<Rightarrow> (int \<times> world) option" where
  "sys_open t fl w =
     (case script w of
        Ret n # rs \<Rightarrow>
          if 0 \<le> n \<and> fds w n = None
          then Some (n, (answered rs (EvOpen t fl (Returned n)) w)\<lparr>fds := (fds w)(n \<mapsto> t)\<rparr>)
          else None
      | Fail e # rs \<Rightarrow>
          if 0 < e then Some (- 1, (answered rs (EvOpen t fl (Failed e)) w)\<lparr>errno := e\<rparr>)
          else None
      | _ \<Rightarrow> None)"

text \<open>\<^verbatim>\<open>read (fd, buffer, count)\<close> delivers at most \<open>count\<close> of the bytes on offer.\<close>

definition sys_read :: "int \<Rightarrow> nat \<Rightarrow> world \<Rightarrow> ((int \<times> string) \<times> world) option" where
  "sys_read fd count w =
     (case script w of
        Data bs # rs \<Rightarrow>
          (let got = take count bs
           in Some ((int (length got), got),
                    answered rs (EvRead (fds w fd) count (Returned (int (length got))) got) w))
      | Fail e # rs \<Rightarrow>
          if 0 < e
          then Some ((- 1, []), (answered rs (EvRead (fds w fd) count (Failed e) []) w)\<lparr>errno := e\<rparr>)
          else None
      | _ \<Rightarrow> None)"

text \<open>\<^verbatim>\<open>write (fd, buffer, count)\<close> returns how many of the bytes it took, or -1.\<close>

definition sys_write :: "int \<Rightarrow> string \<Rightarrow> world \<Rightarrow> (int \<times> world) option" where
  "sys_write fd bs w =
     (case script w of
        Ret k # rs \<Rightarrow>
          if 0 \<le> k \<and> k \<le> int (length bs)
          then Some (k, answered rs (EvWrite (fds w fd) bs (Returned k)) w)
          else None
      | Fail e # rs \<Rightarrow>
          if 0 < e then Some (- 1, (answered rs (EvWrite (fds w fd) bs (Failed e)) w)\<lparr>errno := e\<rparr>)
          else None
      | _ \<Rightarrow> None)"

text \<open>\<^verbatim>\<open>close (fd)\<close> releases the descriptor number whatever it returns.\<close>

definition sys_close :: "int \<Rightarrow> world \<Rightarrow> (int \<times> world) option" where
  "sys_close fd w =
     (case script w of
        Ret r # rs \<Rightarrow>
          if r = 0
          then Some (0, (answered rs (EvClose fd (fds w fd) (Returned 0)) w)\<lparr>fds := (fds w)(fd := None)\<rparr>)
          else None
      | Fail e # rs \<Rightarrow>
          if 0 < e
          then Some (- 1, (answered rs (EvClose fd (fds w fd) (Failed e)) w)
                            \<lparr>fds := (fds w)(fd := None), errno := e\<rparr>)
          else None
      | _ \<Rightarrow> None)"


section \<open>The manager's calls\<close>

definition tb_manager_get_security_level :: "TbManager \<Rightarrow> int" where
  "tb_manager_get_security_level mgr = security_level mgr"

definition tb_manager_lookup :: "TbManager \<Rightarrow> string \<Rightarrow> TbDevice option" where
  "tb_manager_lookup mgr u = devices mgr u"

text \<open>
  Modelled from the spec: \<^verbatim>\<open>tb_manager_ensure_key\<close> is in manager.c, which is missing. It
  returns the key file for the uid, creating the key if absent and telling through
  \<^verbatim>\<open>created\<close> whether it did, or NULL with an error set. Which of these happens is the
  environment's answer.
\<close>

definition tb_manager_ensure_key ::
    "TbDevice \<Rightarrow> bool \<Rightarrow> world \<Rightarrow> ((string option \<times> bool) \<times> world) option" where
  "tb_manager_ensure_key dev replace w =
     (case script w of
        KeyReply (Some path) created # rs \<Rightarrow>
          Some ((Some path, created), answered rs (EvEnsureKey (uid dev) replace (Some path) created) w)
      | KeyReply None created # rs \<Rightarrow>
          Some ((None, False),
                g_set_error Ensure_key_failed G_IO_ERROR_FAILED
                  (answered rs (EvEnsureKey (uid dev) replace None False) w))
      | _ \<Rightarrow> None)"

text \<open>
  Modelled from the spec: \<^verbatim>\<open>tb_manager_store\<close> is in manager.c, which is missing. It
  persists the device and returns whether it could, with an error set if not.
\<close>

definition tb_manager_store :: "TbDevice \<Rightarrow> world \<Rightarrow> (bool \<times> world) option" where
  "tb_manager_store dev w =
     (case script w of
        Done ok # rs \<Rightarrow>
          Some (ok, (if ok then id else g_set_error Store_failed G_IO_ERROR_FAILED)
                      (answered rs (EvStore dev ok) w))
      | _ \<Rightarrow> None)"

section \<open>The I/O helpers of auth.c\<close>

definition tb_close :: "int \<Rightarrow> world \<Rightarrow> (bool \<times> world) option" where
  "tb_close fd w =
     do {
       (r, w1) \<leftarrow> sys_close fd w;
       if r = 0 then Some (True, w1)
       else Some (False, g_set_error Could_not_close_file (g_io_error_from_errno (errno w1)) w1)
     }"

text \<open>
  \<^verbatim>\<open>tb_write_char\<close>: the \<^verbatim>\<open>goto retry\<close> is the recursive call. The error is set only
  for \<open>n = -1\<close>; the result is \<open>n > 0\<close>.
\<close>

function tb_write_char :: "int \<Rightarrow> char \<Rightarrow> world \<Rightarrow> (bool \<times> world) option" where
  "tb_write_char fd data w =
     (case sys_write fd [data] w of
        None \<Rightarrow> None
      | Some (n, w1) \<Rightarrow>
          if n = - 1 then
            (if errno w1 = EINTR then tb_write_char fd data w1
             else Some (n > 0,
                        g_set_error Could_not_write_data (g_io_error_from_errno (errno w1)) w1))
          else Some (n > 0, w1))"
  by pat_completeness auto
termination
  by (relation "measure (\<lambda>(fd, data, w). length (script w))")
     (auto simp: sys_write_def answered_def split: list.splits reply.splits if_splits)

declare tb_write_char.simps [simp del]

definition tb_openat :: "int \<Rightarrow> string \<Rightarrow> oflag \<Rightarrow> world \<Rightarrow> (int \<times> world) option" where
  "tb_openat d path fl w =
     do {
       (fd, w1) \<leftarrow> sys_open (Attr path) fl w;
       if fd < 0
       then Some (fd, g_set_error (Could_not_open_file path) (g_io_error_from_errno (errno w1)) w1)
       else Some (fd, w1)
     }"

text \<open>
  \<^verbatim>\<open>tb_verify_uid\<close>: one \<^verbatim>\<open>read\<close> of \<^verbatim>\<open>strlen (uid)\<close> bytes, repeated on \<^verbatim>\<open>EINTR\<close>;
  \<^verbatim>\<open>memcmp (buffer, uid, len)\<close> compares the first \<open>len\<close> bytes.
\<close>

function tb_verify_uid :: "int \<Rightarrow> string \<Rightarrow> world \<Rightarrow> (bool \<times> world) option" where
  "tb_verify_uid fd u w =
     (let len = length u in
      case sys_read fd len w of
        None \<Rightarrow> None
      | Some ((n, buffer), w1) \<Rightarrow>
          if n < 0 then
            (if errno w1 = EINTR then tb_verify_uid fd u w1
             else Some (False,
                        g_set_error Could_not_read_from_file (g_io_error_from_errno (errno w1)) w1))
          else if int len \<noteq> n then
            Some (False, g_set_error Could_not_read_full_uid_from_file G_IO_ERROR_FAILED w1)
          else if take len buffer \<noteq> take len u then
            Some (False, g_set_error Unique_id_verification_failed G_IO_ERROR_FAILED w1)
          else Some (True, w1))"
  by pat_completeness auto
termination
  by (relation "measure (\<lambda>(fd, u, w). length (script w))")
     (auto simp: sys_read_def answered_def Let_def split: list.splits reply.splits if_splits)

declare tb_verify_uid.simps [simp del]

text \<open>
  \<^verbatim>\<open>tb_read_all\<close>: the do-while loop, with the bytes stored so far (\<open>got\<close>, what
  \<^verbatim>\<open>ptr\<close> has passed), \<open>nread\<close> and \<open>nbyte\<close> as the loop's variables. \<^verbatim>\<open>continue\<close>
  jumps to the loop's test \<^verbatim>\<open>nbyte > 0\<close>. The result is the value returned and the
  bytes stored in the buffer.
\<close>

function tb_read_all_loop ::
    "int \<Rightarrow> string \<Rightarrow> int \<Rightarrow> nat \<Rightarrow> world \<Rightarrow> ((int \<times> string) \<times> world) option" where
  "tb_read_all_loop fd got nread nbyte w =
     (case sys_read fd nbyte w of
        None \<Rightarrow> None
      | Some ((n, chunk), w1) \<Rightarrow>
          if n < 0 then
            (let errsv = errno w1 in
             if errsv = EINTR then
               (if nbyte > 0 then tb_read_all_loop fd got nread nbyte w1
                else Some ((nread, got), w1))
             else Some ((if n > 0 then n else - int errsv, got),
                        g_set_error Input_error_while_reading (g_io_error_from_errno errsv) w1))
          else if n = 0 then Some ((nread, got), w1)
          else
            (if nbyte - nat n > 0
             then tb_read_all_loop fd (got @ chunk) (nread + n) (nbyte - nat n) w1
             else Some ((nread + n, got @ chunk), w1)))"
  by pat_completeness auto
termination
  by (relation "measure (\<lambda>(fd, got, nread, nbyte, w). length (script w))")
     (auto simp: sys_read_def answered_def Let_def split: list.splits reply.splits if_splits)

declare tb_read_all_loop.simps [simp del]

definition tb_read_all :: "int \<Rightarrow> nat \<Rightarrow> world \<Rightarrow> ((int \<times> string) \<times> world) option" where
  "tb_read_all fd nbyte w = tb_read_all_loop fd [] 0 nbyte w"

text \<open>
  The do-while loop of \<^verbatim>\<open>copy_key\<close>: \<^verbatim>\<open>write (to, buffer, n)\<close>, again while it fails
  with \<^verbatim>\<open>EINTR\<close>. Every round offers the whole buffer.
\<close>

function copy_key_write :: "int \<Rightarrow> string \<Rightarrow> world \<Rightarrow> (int \<times> world) option" where
  "copy_key_write to buffer w =
     (case sys_write to buffer w of
        None \<Rightarrow> None
      | Some (k, w1) \<Rightarrow>
          if k < 0 \<and> errno w1 = EINTR then copy_key_write to buffer w1 else Some (k, w1))"
  by pat_completeness auto
termination
  by (relation "measure (\<lambda>(to, buffer, w). length (script w))")
     (auto simp: sys_write_def answered_def split: list.splits reply.splits if_splits)

declare copy_key_write.simps [simp del]

text \<open>
  \<^verbatim>\<open>copy_key\<close>. \<open>TB_KEY_CHARS\<close>, the size of the buffer, is a constant of a missing
  header and is a parameter here. The buffer starts as zeros and \<^verbatim>\<open>tb_read_all\<close>
  fills it from the front. The descriptor \<open>from\<close> is not closed on any path.
\<close>

definition copy_key :: "nat \<Rightarrow> string \<Rightarrow> int \<Rightarrow> world \<Rightarrow> (bool \<times> world) option" where
  "copy_key TB_KEY_CHARS path to w =
     do {
       (from, w1) \<leftarrow> sys_open (File path) O_RDONLY w;
       if from < 0
       then Some (False, g_set_error Could_not_open_key_file (g_io_error_from_errno (errno w1)) w1)
       else do {
         ((n, got), w2) \<leftarrow> tb_read_all from TB_KEY_CHARS w1;
         let buffer = got @ replicate (TB_KEY_CHARS - length got) (CHR 0x00) in
         if n < 0 then Some (False, w2)
         else if n \<noteq> int TB_KEY_CHARS
         then Some (False, g_set_error Could_not_read_entire_key_from_disk G_IO_ERROR_FAILED w2)
         else do {
           (k, w3) \<leftarrow> copy_key_write to (take (nat n) buffer) w2;
           if k \<noteq> n
           then Some (False, g_set_error Io_error_while_writing_key_data
                               (g_io_error_from_errno (errno w3)) w3)
           else Some (True, w3)
         }
       }
     }"


section \<open>The authorization engine\<close>

text \<open>
  \<^verbatim>\<open>tb_device_authorize\<close> is given in four parts. \<open>authorize_key\<close> is the block
  \<^verbatim>\<open>if (security == '2') { ... }\<close>: it gives \<open>None\<close> where the block returns FALSE from
  the function, and otherwise the value \<^verbatim>\<open>security\<close> has after the block. On a failed
  \<^verbatim>\<open>copy_key\<close> the block closes \<^verbatim>\<open>fd\<close>, the descriptor of \<^verbatim>\<open>unique_id\<close> that was closed
  before, not \<^verbatim>\<open>keyfd\<close>.
\<close>

definition authorize_key ::
    "nat \<Rightarrow> TbDevice \<Rightarrow> int \<Rightarrow> int \<Rightarrow> int \<Rightarrow> world \<Rightarrow> (int option \<times> world) option" where
  "authorize_key TB_KEY_CHARS dev d fd security w =
     do {
       ((key, created), w1) \<leftarrow> tb_manager_ensure_key dev False w;
       case key of
         None \<Rightarrow> Some (None, w1)
       | Some path \<Rightarrow>
           do {
             (keyfd, w2) \<leftarrow> tb_openat d ''key'' O_WRONLY w1;
             if keyfd < 0 then Some (None, w2)
             else do {
               (ok, w3) \<leftarrow> copy_key TB_KEY_CHARS path keyfd w2;
               if \<not> ok then do { (r, w4) \<leftarrow> sys_close fd w3; Some (None, w4) }
               else do {
                 (ok, w4) \<leftarrow> tb_close keyfd w3;
                 if \<not> ok then Some (None, w4)
                 else Some (Some (if created then of_char (CHR ''1'') else security), w4)
               }
             }
           }
     }"

text \<open>
  \<open>authorize_grant\<close> is the end of the function: open \<^verbatim>\<open>authorized\<close>, write
  \<^verbatim>\<open>security\<close> converted to \<^verbatim>\<open>char\<close>, close.
\<close>

definition authorize_grant :: "int \<Rightarrow> int \<Rightarrow> world \<Rightarrow> (bool \<times> world) option" where
  "authorize_grant d security w =
     do {
       (fd, w1) \<leftarrow> tb_openat d ''authorized'' O_WRONLY w;
       if fd < 0 then Some (False, w1)
       else do {
         (ok, w2) \<leftarrow> tb_write_char fd (char_of security) w1;
         if \<not> ok then do { (r, w3) \<leftarrow> sys_close fd w2; Some (False, w3) }
         else tb_close fd w2
       }
     }"

text \<open>\<open>authorize_in_dir\<close> is the function from the first \<^verbatim>\<open>tb_openat\<close> to its end.\<close>

definition authorize_in_dir ::
    "nat \<Rightarrow> int \<Rightarrow> TbDevice \<Rightarrow> int \<Rightarrow> world \<Rightarrow> (bool \<times> world) option" where
  "authorize_in_dir TB_KEY_CHARS security dev d w =
     do {
       (fd, w1) \<leftarrow> tb_openat d ''unique_id'' O_RDONLY w;
       if fd < 0 then Some (False, w1)
       else do {
         (ok, w2) \<leftarrow> tb_verify_uid fd (uid dev) w1;
         (r, w3) \<leftarrow> sys_close fd w2;
         if \<not> ok then Some (False, w3)
         else if security = of_char (CHR ''2'') then
           do {
             (after, w4) \<leftarrow> authorize_key TB_KEY_CHARS dev d fd security w3;
             case after of
               None \<Rightarrow> Some (False, w4)
             | Some security' \<Rightarrow> authorize_grant d security' w4
           }
         else authorize_grant d security w3
       }
     }"

text \<open>
  \<^verbatim>\<open>tb_device_authorize\<close>: the entry is recorded in the trace; \<^verbatim>\<open>g_autoptr(DIR)\<close> closes
  the directory on every return that follows a successful \<^verbatim>\<open>opendir\<close>. The function
  never assigns through \<^verbatim>\<open>dev\<close>: the device record it leaves is the one it was given.
\<close>

definition tb_device_authorize ::
    "nat \<Rightarrow> TbManager \<Rightarrow> TbDevice \<Rightarrow> world \<Rightarrow> ((bool \<times> TbDevice) \<times> world) option" where
  "tb_device_authorize TB_KEY_CHARS mgr dev w0 =
     (let w = w0\<lparr>trace := trace w0 @ [EvAuthorize (uid dev)]\<rparr>;
          security = tb_manager_get_security_level mgr
      in if security < 1 then Some ((True, dev), w)
         else do {
           (d, w1) \<leftarrow> sys_open (Dir (sysfs dev)) O_RDONLY w;
           if d < 0
           then Some ((False, dev),
                      g_set_error Could_not_open_directory (g_io_error_from_errno (errno w1)) w1)
           else do {
             (ok, w2) \<leftarrow> authorize_in_dir TB_KEY_CHARS security dev d w1;
             (r, w3) \<leftarrow> sys_close d w2;
             Some ((ok, dev), w3)
           }
         })"

section \<open>The commands\<close>

text \<open>
  What \<^verbatim>\<open>g_option_context_parse\<close> leaves: whether it succeeded, the remaining arguments
  (\<^verbatim>\<open>argc\<close> is their number) and the two option flags.
\<close>

record cmdline =
  parse_ok :: bool
  argv     :: "string list"
  do_store :: bool
  do_auto  :: bool

text \<open>
  A command returns an exit status, or dereferences a null pointer: the failure
  branches print \<^verbatim>\<open>error->message\<close>, and \<^verbatim>\<open>error\<close> is NULL when nothing has set it.
\<close>

datatype outcome = Exit int | Null_dereference

definition EXIT_SUCCESS :: int where
  "EXIT_SUCCESS = 0"

definition EXIT_FAILURE :: int where
  "EXIT_FAILURE = 1"

definition print_error_and_fail :: "world \<Rightarrow> outcome" where
  "print_error_and_fail w = (case err w of None \<Rightarrow> Null_dereference | Some e \<Rightarrow> Exit EXIT_FAILURE)"

text \<open>
  Both commands start with \<^verbatim>\<open>error = NULL\<close>. The result is the outcome and the device
  record as the command leaves it (\<open>None\<close> when no device was looked up).
\<close>

definition authorize_device ::
    "nat \<Rightarrow> TbManager \<Rightarrow> cmdline \<Rightarrow> world \<Rightarrow> ((outcome \<times> TbDevice option) \<times> world) option" where
  "authorize_device TB_KEY_CHARS mgr c w0 =
     (let w = w0\<lparr>err := None\<rparr> in
      if \<not> parse_ok c then Some ((Exit EXIT_FAILURE, None), w)
      else if length (argv c) < 2 then Some ((Exit EXIT_FAILURE, None), w)
      else case tb_manager_lookup mgr (argv c ! 1) of
        None \<Rightarrow> Some ((Exit EXIT_FAILURE, None), w)
      | Some dev \<Rightarrow>
          do {
            ((ok, dev1), w1) \<leftarrow> tb_device_authorize TB_KEY_CHARS mgr dev w;
            if \<not> ok then Some ((print_error_and_fail w1, Some dev1), w1)
            else
              (let store = (if do_auto c then True else do_store c);
                   dev2 = (if do_auto c then dev1\<lparr>policy := TB_POLICY_AUTO\<rparr> else dev1)
               in if store then
                    do {
                      (ok, w2) \<leftarrow> tb_manager_store dev2 w1;
                      if \<not> ok then Some ((print_error_and_fail w2, Some dev2), w2)
                      else Some ((Exit EXIT_SUCCESS, Some dev2), w2)
                    }
                  else Some ((Exit EXIT_SUCCESS, Some dev2), w1))
          })"

definition auto_device ::
    "nat \<Rightarrow> TbManager \<Rightarrow> cmdline \<Rightarrow> world \<Rightarrow> ((outcome \<times> TbDevice option) \<times> world) option" where
  "auto_device TB_KEY_CHARS mgr c w0 =
     (let w = w0\<lparr>err := None\<rparr> in
      if \<not> parse_ok c then Some ((Exit EXIT_FAILURE, None), w)
      else if length (argv c) < 2 then Some ((Exit EXIT_FAILURE, None), w)
      else case tb_manager_lookup mgr (argv c ! 1) of
        None \<Rightarrow> Some ((Exit EXIT_FAILURE, None), w)
      | Some dev \<Rightarrow>
          if \<not> in_store dev then Some ((Exit EXIT_SUCCESS, Some dev), w)
          else if policy dev \<noteq> TB_POLICY_AUTO then Some ((Exit EXIT_SUCCESS, Some dev), w)
          else do {
            ((ok, dev1), w1) \<leftarrow> tb_device_authorize TB_KEY_CHARS mgr dev w;
            if \<not> ok then Some ((print_error_and_fail w1, Some dev1), w1)
            else Some ((Exit EXIT_SUCCESS, Some dev1), w1)
          })"


section \<open>Reading the trace\<close>

text \<open>The calls a run has added to the trace.\<close>

definition new_events :: "world \<Rightarrow> world \<Rightarrow> event list" where
  "new_events w w' = drop (length (trace w)) (trace w')"

text \<open>
  The result a call is recorded with: the value it returned, or, for a negative
  return value, the \<^verbatim>\<open>errno\<close> it left.
\<close>

definition call_result :: "int \<Rightarrow> world \<Rightarrow> result" where
  "call_result r w' = (if r < 0 then Failed (errno w') else Returned r)"

fun returned :: "result \<Rightarrow> bool" where
  "returned (Returned n) = True"
| "returned (Failed e) = False"

text \<open>
  The two errors \<^verbatim>\<open>tb_verify_uid\<close> sets when the bytes it read are not the uid: too few
  bytes, or different bytes.
\<close>

definition uid_verification_error :: "GError \<Rightarrow> bool" where
  "uid_verification_error e \<longleftrightarrow>
     e = GError Could_not_read_full_uid_from_file G_IO_ERROR_FAILED \<or>
     e = GError Unique_id_verification_failed G_IO_ERROR_FAILED"

text \<open>The bytes that the \<^verbatim>\<open>read\<close> calls of a trace delivered, in order.\<close>

fun bytes_read :: "event list \<Rightarrow> string" where
  "bytes_read [] = []"
| "bytes_read (EvRead t c n bs # es) = bs @ bytes_read es"
| "bytes_read (e # es) = bytes_read es"

fun is_read_of :: "target option \<Rightarrow> event \<Rightarrow> bool" where
  "is_read_of T (EvRead t c n bs) = (t = T)"
| "is_read_of T e = False"

fun is_write :: "event \<Rightarrow> bool" where
  "is_write (EvWrite t bs r) = True"
| "is_write e = False"

text \<open>
  The calls of a run of \<^verbatim>\<open>tb_device_authorize\<close> fall into three phases. The first is
  the entry, \<^verbatim>\<open>opendir\<close> and the check of \<^verbatim>\<open>unique_id\<close>; the second is the block for
  \<^verbatim>\<open>security == '2'\<close>, which provisions the key; the third opens \<^verbatim>\<open>authorized\<close>,
  writes the grant byte and closes. Each predicate says which calls its phase can make.
\<close>

fun pre_phase_event :: "event \<Rightarrow> bool" where
  "pre_phase_event (EvAuthorize u) = True"
| "pre_phase_event (EvOpen (Dir p) fl r) = (fl = O_RDONLY)"
| "pre_phase_event (EvOpen (Attr a) fl r) = (a = ''unique_id'' \<and> fl = O_RDONLY)"
| "pre_phase_event (EvRead t c r bs) = (t = Some (Attr ''unique_id''))"
| "pre_phase_event (EvClose fd t r) = True"
| "pre_phase_event e = False"

fun key_phase_event :: "event \<Rightarrow> bool" where
  "key_phase_event (EvEnsureKey u rep p c) = True"
| "key_phase_event (EvOpen (Attr a) fl r) = (a = ''key'')"
| "key_phase_event (EvOpen (File p) fl r) = True"
| "key_phase_event (EvRead (Some (File p)) c r bs) = True"
| "key_phase_event (EvWrite (Some (Attr a)) bs r) = (a = ''key'')"
| "key_phase_event (EvClose fd t r) = True"
| "key_phase_event e = False"

fun grant_phase_event :: "int \<Rightarrow> event \<Rightarrow> bool" where
  "grant_phase_event s (EvOpen t fl r) = (t = Attr ''authorized'' \<and> fl = O_WRONLY)"
| "grant_phase_event s (EvWrite t bs r) = (t = Some (Attr ''authorized'') \<and> bs = [char_of s])"
| "grant_phase_event s (EvClose fd t r) = True"
| "grant_phase_event s e = False"

text \<open>A call that touches the \<^verbatim>\<open>authorized\<close> attribute: opening it, or writing to it.\<close>

fun is_grant_event :: "event \<Rightarrow> bool" where
  "is_grant_event (EvOpen t fl r) = (t = Attr ''authorized'')"
| "is_grant_event (EvWrite t bs r) = (t = Some (Attr ''authorized''))"
| "is_grant_event e = False"

fun opens_for_writing :: "event \<Rightarrow> bool" where
  "opens_for_writing (EvOpen t fl r) = (fl = O_WRONLY)"
| "opens_for_writing e = False"

text \<open>
  The key has been provisioned in a list of calls: \<^verbatim>\<open>tb_manager_ensure_key\<close> returned
  a key file for the device, \<^verbatim>\<open>key\<close> was opened for writing, one \<^verbatim>\<open>write\<close> took all
  \<open>TB_KEY_CHARS\<close> bytes, and the descriptor was closed without error.
\<close>

definition key_provisioned :: "nat \<Rightarrow> TbDevice \<Rightarrow> event list \<Rightarrow> bool" where
  "key_provisioned K dev evs \<longleftrightarrow>
     (\<exists>p c keyfd key.
        EvEnsureKey (uid dev) False (Some p) c \<in> set evs \<and>
        EvOpen (Attr ''key'') O_WRONLY (Returned keyfd) \<in> set evs \<and>
        EvWrite (Some (Attr ''key'')) key (Returned (int K)) \<in> set evs \<and> length key = K \<and>
        EvClose keyfd (Some (Attr ''key'')) (Returned 0) \<in> set evs)"

text \<open>
  What holds of the calls \<open>evs\<close> of every run, with result \<open>ok\<close> and the error slot
  going from \<open>e0\<close> to \<open>e1\<close>: the three phases in order, and what each contributes.
\<close>

definition run_summary ::
    "nat \<Rightarrow> int \<Rightarrow> TbDevice \<Rightarrow> bool \<Rightarrow> GError option \<Rightarrow> GError option \<Rightarrow> event list \<Rightarrow> bool" where
  "run_summary K sec dev ok e0 e1 evs \<longleftrightarrow>
     (\<exists>U KS GS sec'. evs = U @ KS @ GS \<and>
        (\<forall>e\<in>set U. pre_phase_event e) \<and>
        (\<forall>e\<in>set KS. key_phase_event e) \<and>
        (\<forall>e\<in>set GS. grant_phase_event sec' e) \<and>
        (sec \<noteq> of_char (CHR ''2'') \<longrightarrow> KS = [] \<and> sec' = sec) \<and>
        (sec = of_char (CHR ''2'') \<and> (\<exists>e\<in>set GS. is_grant_event e) \<longrightarrow>
           key_provisioned K dev KS \<and>
           (\<forall>u rep p c. EvEnsureKey u rep p c \<in> set KS \<longrightarrow>
              sec' = (if c then of_char (CHR ''1'') else of_char (CHR ''2'')))) \<and>
        (\<forall>c n bs. EvRead (Some (Attr ''unique_id'')) c (Returned n) bs \<in> set U \<and> bs \<noteq> uid dev \<longrightarrow>
           \<not> ok \<and> KS = [] \<and> (\<forall>e\<in>set GS. \<not> is_grant_event e) \<and>
           (e0 = None \<longrightarrow> (\<exists>x. e1 = Some x \<and> uid_verification_error x))) \<and>
        (if ok then e1 = e0 \<and>
                    (1 \<le> sec \<longrightarrow>
                       EvWrite (Some (Attr ''authorized'')) [char_of sec'] (Returned 1) \<in> set GS)
         else e1 \<noteq> None \<or>
              EvWrite (Some (Attr ''authorized'')) [char_of sec'] (Returned 0) \<in> set GS))"

text \<open>
  The \<^verbatim>\<open>errno\<close> a call leaves, given the \<^verbatim>\<open>errno\<close> before it: a failed call sets it, any
  other call leaves it as it was.
\<close>

fun errno_after :: "nat \<Rightarrow> event \<Rightarrow> nat" where
  "errno_after en (EvOpen t fl (Failed e)) = e"
| "errno_after en (EvRead t c (Failed e) bs) = e"
| "errno_after en (EvWrite t bs (Failed e)) = e"
| "errno_after en (EvClose fd t (Failed e)) = e"
| "errno_after en ev = en"

text \<open>
  The calls whose outcome makes \<^verbatim>\<open>tb_device_authorize\<close> give up: an open that fails;
  a \<^verbatim>\<open>read\<close> or \<^verbatim>\<open>write\<close> that fails with an \<^verbatim>\<open>errno\<close> other than \<^verbatim>\<open>EINTR\<close>; a \<^verbatim>\<open>read\<close>
  of \<^verbatim>\<open>unique_id\<close> (the only attribute read) that returns fewer bytes than asked for, or
  bytes other than the uid; a \<^verbatim>\<open>read\<close> of the key file that returns 0 while bytes are
  still asked for; a \<^verbatim>\<open>write\<close> that takes fewer bytes than offered; a failing \<^verbatim>\<open>close\<close>
  of \<^verbatim>\<open>key\<close> or \<^verbatim>\<open>authorized\<close> (the results of closing \<^verbatim>\<open>unique_id\<close> and the
  directory are not looked at); \<^verbatim>\<open>tb_manager_ensure_key\<close> returning NULL.
\<close>

fun failing_step :: "TbDevice \<Rightarrow> event \<Rightarrow> bool" where
  "failing_step dev (EvOpen t fl r) = (\<not> returned r)"
| "failing_step dev (EvRead (Some (Attr a)) c (Failed e) bs) = (e \<noteq> EINTR)"
| "failing_step dev (EvRead (Some (Attr a)) c (Returned n) bs) = (n \<noteq> int c \<or> bs \<noteq> uid dev)"
| "failing_step dev (EvRead (Some (File p)) c (Failed e) bs) = (e \<noteq> EINTR)"
| "failing_step dev (EvRead (Some (File p)) c (Returned n) bs) = (n = 0 \<and> 0 < c)"
| "failing_step dev (EvWrite t bs (Failed e)) = (e \<noteq> EINTR)"
| "failing_step dev (EvWrite t bs (Returned k)) = (k \<noteq> int (length bs))"
| "failing_step dev (EvClose fd (Some (Attr a)) r) = (a \<noteq> ''unique_id'' \<and> \<not> returned r)"
| "failing_step dev (EvEnsureKey u rep p c) = (p = None)"
| "failing_step dev e = False"

text \<open>
  The error each \<^verbatim>\<open>g_set_error\<close> site of auth.c sets for the failing call it handles;
  \<open>en\<close> is the \<^verbatim>\<open>errno\<close> before the call. A short \<^verbatim>\<open>write\<close> of the key is reported with
  whatever \<^verbatim>\<open>errno\<close> holds (the call did not set it). For a \<^verbatim>\<open>write\<close> to \<^verbatim>\<open>authorized\<close>
  that returns 0 no error is given here.
\<close>

fun step_error :: "nat \<Rightarrow> event \<Rightarrow> GError option" where
  "step_error en (EvOpen (Dir p) fl (Failed e)) =
     Some (GError Could_not_open_directory (g_io_error_from_errno e))"
| "step_error en (EvOpen (Attr a) fl (Failed e)) =
     Some (GError (Could_not_open_file a) (g_io_error_from_errno e))"
| "step_error en (EvOpen (File p) fl (Failed e)) =
     Some (GError Could_not_open_key_file (g_io_error_from_errno e))"
| "step_error en (EvRead (Some (Attr a)) c (Failed e) bs) =
     Some (GError Could_not_read_from_file (g_io_error_from_errno e))"
| "step_error en (EvRead (Some (Attr a)) c (Returned n) bs) =
     Some (GError (if n \<noteq> int c then Could_not_read_full_uid_from_file
                   else Unique_id_verification_failed) G_IO_ERROR_FAILED)"
| "step_error en (EvRead (Some (File p)) c (Failed e) bs) =
     Some (GError Input_error_while_reading (g_io_error_from_errno e))"
| "step_error en (EvRead (Some (File p)) c (Returned n) bs) =
     Some (GError Could_not_read_entire_key_from_disk G_IO_ERROR_FAILED)"
| "step_error en (EvWrite (Some (Attr a)) bs (Failed e)) =
     Some (GError (if a = ''key'' then Io_error_while_writing_key_data else Could_not_write_data)
             (g_io_error_from_errno e))"
| "step_error en (EvWrite (Some (Attr a)) bs (Returned k)) =
     (if a = ''key'' then Some (GError Io_error_while_writing_key_data (g_io_error_from_errno en))
      else None)"
| "step_error en (EvClose fd t (Failed e)) =
     Some (GError Could_not_close_file (g_io_error_from_errno e))"
| "step_error en (EvEnsureKey u rep None c) = Some (GError Ensure_key_failed G_IO_ERROR_FAILED)"
| "step_error en e = None"

text \<open>
  The first failing step of a list of calls, with the \<^verbatim>\<open>errno\<close> before it; \<open>en\<close> is the
  \<^verbatim>\<open>errno\<close> before the first call of the list.
\<close>

fun first_failure :: "TbDevice \<Rightarrow> nat \<Rightarrow> event list \<Rightarrow> (nat \<times> event) option" where
  "first_failure dev en [] = None"
| "first_failure dev en (e # es) =
     (if failing_step dev e then Some (en, e) else first_failure dev (errno_after en e) es)"

text \<open>
  A stretch of a run from \<open>w\<close> to \<open>w'\<close> is accounted for with result \<open>good\<close>: the result
  is good exactly if no call of the stretch is a failing step, a good stretch leaves the
  error slot alone, and a stretch that starts with no error set ends with the error of
  its first failing step; the one failing step that \<open>step_error\<close> gives no error for is
  a \<^verbatim>\<open>write\<close> of one byte to \<^verbatim>\<open>authorized\<close> that returns 0.
\<close>

definition accounted :: "TbDevice \<Rightarrow> bool \<Rightarrow> world \<Rightarrow> world \<Rightarrow> bool" where
  "accounted dev good w w' \<longleftrightarrow>
     (\<exists>evs. trace w' = trace w @ evs \<and> errno w' = foldl errno_after (errno w) evs \<and>
        (good \<longleftrightarrow> first_failure dev (errno w) evs = None) \<and>
        (good \<longrightarrow> err w' = err w) \<and>
        (err w = None \<longrightarrow>
           (\<forall>en e. first_failure dev (errno w) evs = Some (en, e) \<longrightarrow>
              (case step_error en e of
                 Some x \<Rightarrow> err w' = Some x
               | None \<Rightarrow> \<exists>c. e = EvWrite (Some (Attr ''authorized'')) [c] (Returned 0)))))"

section \<open>Sample values\<close>

text \<open>
  The device of the spec's scenarios, a manager that knows it at a given security level,
  and a process state with a given list of replies, no descriptor open and no error set.
\<close>

definition sample_device :: TbDevice where
  "sample_device =
     \<lparr>uid = ''AA11'', sysfs = ''/sys/tb/0-1'', in_store = True,
      policy = TB_POLICY_MANUAL, status = Connected\<rparr>"

definition sample_manager :: "int \<Rightarrow> TbManager" where
  "sample_manager level = \<lparr>security_level = level, devices = [''AA11'' \<mapsto> sample_device]\<rparr>"

definition start :: "reply list \<Rightarrow> world" where
  "start rs = \<lparr>script = rs, trace = [], fds = Map.empty, errno = 0, err = None\<rparr>"

text \<open>The same, with descriptor 5 open on the device's \<^verbatim>\<open>key\<close> attribute.\<close>

definition key_attr_open :: "reply list \<Rightarrow> world" where
  "key_attr_open rs = (start rs)\<lparr>fds := [5 \<mapsto> Attr ''key'']\<rparr>"

section \<open>What each function does to the state\<close>


lemma g_set_error_simps [simp]:
  "script (g_set_error m c w) = script w" "trace (g_set_error m c w) = trace w"
  "fds (g_set_error m c w) = fds w" "errno (g_set_error m c w) = errno w"
  "err (g_set_error m c w) = (if err w = None then Some (GError m c) else err w)"
  by (auto simp: g_set_error_def)

lemma call_result_simps [simp]:
  "0 \<le> r \<Longrightarrow> call_result r w = Returned r"
  "call_result (- 1) w = Failed (errno w)"
  "call_result r (g_set_error m c w) = call_result r w"
  by (simp_all add: call_result_def)

lemma sys_open_fp:
  "sys_open t fl w = Some (r, w') \<Longrightarrow>
     trace w' = trace w @ [EvOpen t fl (call_result r w')] \<and> err w' = err w \<and>
     (if 0 \<le> r then fds w' = (fds w)(r \<mapsto> t) \<and> fds w r = None
      else r = - 1 \<and> fds w' = fds w \<and> 0 < errno w')"
  by (auto simp: sys_open_def answered_def split: list.splits reply.splits if_splits)

lemma sys_read_fp:
  "sys_read fd cnt w = Some ((n, bs), w') \<Longrightarrow>
     trace w' = trace w @ [EvRead (fds w fd) cnt (call_result n w') bs] \<and>
     err w' = err w \<and> fds w' = fds w \<and>
     (if n < 0 then n = - 1 \<and> bs = [] \<and> 0 < errno w'
      else n = int (length bs) \<and> length bs \<le> cnt)"
  by (auto simp: sys_read_def answered_def Let_def split: list.splits reply.splits if_splits)

lemma sys_write_fp:
  "sys_write fd bs w = Some (k, w') \<Longrightarrow>
     trace w' = trace w @ [EvWrite (fds w fd) bs (call_result k w')] \<and>
     err w' = err w \<and> fds w' = fds w \<and>
     (k = - 1 \<and> 0 < errno w' \<or> 0 \<le> k \<and> k \<le> int (length bs))"
  by (auto simp: sys_write_def answered_def split: list.splits reply.splits if_splits)

lemma sys_close_fp:
  "sys_close fd w = Some (r, w') \<Longrightarrow>
     trace w' = trace w @ [EvClose fd (fds w fd) (call_result r w')] \<and> err w' = err w \<and>
     fds w' = (fds w)(fd := None) \<and> (r = 0 \<or> r = - 1 \<and> 0 < errno w')"
  by (auto simp: sys_close_def answered_def split: list.splits reply.splits if_splits)

lemma tb_close_fp:
  "tb_close fd w = Some (ok, w') \<Longrightarrow>
     trace w' = trace w @ [EvClose fd (fds w fd) (if ok then Returned 0 else Failed (errno w'))] \<and>
     fds w' = (fds w)(fd := None) \<and>
     (if ok then err w' = err w else err w' \<noteq> None)"
  by (auto simp: tb_close_def split: bind_splits if_splits dest!: sys_close_fp)

lemma tb_openat_fp:
  "tb_openat d p fl w = Some (fd, w') \<Longrightarrow>
     trace w' = trace w @ [EvOpen (Attr p) fl (call_result fd w')] \<and>
     (if 0 \<le> fd then fds w' = (fds w)(fd \<mapsto> Attr p) \<and> fds w fd = None \<and> err w' = err w
      else fd = - 1 \<and> fds w' = fds w \<and> err w' \<noteq> None)"
  by (auto simp: tb_openat_def split: bind_splits if_splits dest!: sys_open_fp)

lemma bytes_read_append [simp]: "bytes_read (xs @ ys) = bytes_read xs @ bytes_read ys"
  by (induction xs rule: bytes_read.induct) simp_all

lemma bytes_read_replicate_failed [simp]: "bytes_read (replicate m (EvRead t c n [])) = []"
  by (induction m) simp_all

lemma bytes_read_replicate_write [simp]: "bytes_read (replicate m (EvWrite t bs k)) = []"
  by (induction m) simp_all

lemma returned_call_result [simp]: "returned (call_result r w) \<longleftrightarrow> 0 \<le> r"
  by (simp add: call_result_def)

lemma replicate_snoc_shape: "x # replicate m x @ ys = replicate (Suc m) x @ ys"
  by simp

subsection \<open>tb_verify_uid\<close>

lemma tb_verify_uid_cases:
  assumes "tb_verify_uid fd u w = Some (ok, w')"
  obtains
    (retry) w1 where "sys_read fd (length u) w = Some ((- 1, []), w1)"
      "errno w1 = EINTR" "tb_verify_uid fd u w1 = Some (ok, w')"
  | (failed) w1 where "sys_read fd (length u) w = Some ((- 1, []), w1)"
      "errno w1 \<noteq> EINTR" "\<not> ok"
      "w' = g_set_error Could_not_read_from_file (g_io_error_from_errno (errno w1)) w1"
  | (short) buffer w1 where "sys_read fd (length u) w = Some ((int (length buffer), buffer), w1)"
      "length u \<noteq> length buffer" "\<not> ok"
      "w' = g_set_error Could_not_read_full_uid_from_file G_IO_ERROR_FAILED w1"
  | (differs) buffer w1 where "sys_read fd (length u) w = Some ((int (length u), buffer), w1)"
      "length buffer = length u" "buffer \<noteq> u" "\<not> ok"
      "w' = g_set_error Unique_id_verification_failed G_IO_ERROR_FAILED w1"
  | (equal) "sys_read fd (length u) w = Some ((int (length u), u), w')" "ok"
proof -
  from assms have
    "(case sys_read fd (length u) w of
        None \<Rightarrow> None
      | Some ((n, buffer), w1) \<Rightarrow>
          if n < 0 then
            (if errno w1 = EINTR then tb_verify_uid fd u w1
             else Some (False,
                        g_set_error Could_not_read_from_file (g_io_error_from_errno (errno w1)) w1))
          else if int (length u) \<noteq> n then
            Some (False, g_set_error Could_not_read_full_uid_from_file G_IO_ERROR_FAILED w1)
          else if take (length u) buffer \<noteq> take (length u) u then
            Some (False, g_set_error Unique_id_verification_failed G_IO_ERROR_FAILED w1)
          else Some (True, w1)) = Some (ok, w')"
    by (subst (asm) tb_verify_uid.simps) (simp add: Let_def)
  then obtain n buffer w1 where rd: "sys_read fd (length u) w = Some ((n, buffer), w1)"
    and r: "(if n < 0 then
            (if errno w1 = EINTR then tb_verify_uid fd u w1
             else Some (False,
                        g_set_error Could_not_read_from_file (g_io_error_from_errno (errno w1)) w1))
          else if int (length u) \<noteq> n then
            Some (False, g_set_error Could_not_read_full_uid_from_file G_IO_ERROR_FAILED w1)
          else if take (length u) buffer \<noteq> take (length u) u then
            Some (False, g_set_error Unique_id_verification_failed G_IO_ERROR_FAILED w1)
          else Some (True, w1)) = Some (ok, w')"
    by (auto split: option.splits)
  from sys_read_fp [OF rd]
  have nb: "if n < 0 then n = - 1 \<and> buffer = [] else n = int (length buffer) \<and> length buffer \<le> length u"
    by presburger
  show thesis
  proof (cases "n < 0")
    case True
    with nb have n: "n = - 1" and b: "buffer = []" by simp_all
    show ?thesis
    proof (cases "errno w1 = EINTR")
      case True
      with r n have "tb_verify_uid fd u w1 = Some (ok, w')" by simp
      with rd n b True show ?thesis by (intro retry) simp_all
    next
      case False
      with r n have "\<not> ok"
        "w' = g_set_error Could_not_read_from_file (g_io_error_from_errno (errno w1)) w1"
        by auto
      with rd n b False show ?thesis by (intro failed) simp_all
    qed
  next
    case False
    with nb have n: "n = int (length buffer)" and le: "length buffer \<le> length u" by simp_all
    show ?thesis
    proof (cases "length buffer = length u")
      case ne: False
      with r n have "\<not> ok"
        "w' = g_set_error Could_not_read_full_uid_from_file G_IO_ERROR_FAILED w1"
        by auto
      with rd n ne show ?thesis by (intro short [of buffer w1]) simp_all
    next
      case eq: True
      show ?thesis
      proof (cases "buffer = u")
        case True
        with r n eq have "ok" "w' = w1" by auto
        with rd n eq True show ?thesis by (intro equal) simp_all
      next
        case False
        with r n eq have "\<not> ok"
          "w' = g_set_error Unique_id_verification_failed G_IO_ERROR_FAILED w1"
          by auto
        with rd n eq False show ?thesis by (intro differs [of buffer w1]) simp_all
      qed
    qed
  qed
qed


lemma tb_verify_uid_fp:
  "tb_verify_uid fd u w = Some (ok, w') \<Longrightarrow>
     \<exists>m res bs. trace w' = trace w @ replicate m (EvRead (fds w fd) (length u) (Failed EINTR) []) @
                               [EvRead (fds w fd) (length u) res bs] \<and>
       fds w' = fds w \<and> (ok \<longleftrightarrow> returned res \<and> bs = u) \<and>
       (if ok then err w' = err w else err w' \<noteq> None) \<and>
       (returned res \<and> bs \<noteq> u \<and> err w = None \<longrightarrow> (\<exists>x. err w' = Some x \<and> uid_verification_error x))"
proof (induction fd u w arbitrary: ok w' rule: tb_verify_uid.induct)
  case (1 fd u w)
  let ?T = "fds w fd" and ?len = "length u"
  from "1.prems" show ?case
  proof (cases rule: tb_verify_uid_cases)
    case (retry w1)
    note fp = sys_read_fp [OF retry(1)]
    from fp retry(2) have e1: "err w1 = err w" and f1: "fds w1 = fds w"
      and t1: "trace w1 = trace w @ [EvRead ?T ?len (Failed EINTR) []]" by simp_all
    from "1.IH" [OF refl retry(1) refl refl _ retry(2,3)]
    obtain m res bs where
      tr: "trace w' = trace w1 @ replicate m (EvRead (fds w1 fd) ?len (Failed EINTR) []) @
                               [EvRead (fds w1 fd) ?len res bs]"
      and rest: "fds w' = fds w1" "ok \<longleftrightarrow> returned res \<and> bs = u"
        "if ok then err w' = err w1 else err w' \<noteq> None"
        "returned res \<and> bs \<noteq> u \<and> err w1 = None \<longrightarrow> (\<exists>x. err w' = Some x \<and> uid_verification_error x)"
      by auto
    from tr t1 f1 have
      "trace w' = trace w @ replicate (Suc m) (EvRead ?T ?len (Failed EINTR) []) @ [EvRead ?T ?len res bs]"
      by simp
    with rest e1 f1 show ?thesis by metis
  next
    case (failed w1)
    note fp = sys_read_fp [OF failed(1)]
    show ?thesis
      apply (rule exI [of _ 0], rule exI [of _ "Failed (errno w1)"], rule exI [of _ "[]"])
      using fp failed(2-) by simp
  next
    case (short buffer w1)
    note fp = sys_read_fp [OF short(1)]
    show ?thesis
      apply (rule exI [of _ 0], rule exI [of _ "Returned (int (length buffer))"], rule exI [of _ buffer])
      using fp short(2-) by (auto simp: uid_verification_error_def)
  next
    case (differs buffer w1)
    note fp = sys_read_fp [OF differs(1)]
    show ?thesis
      apply (rule exI [of _ 0], rule exI [of _ "Returned (int (length u))"], rule exI [of _ buffer])
      using fp differs(3-) by (auto simp: uid_verification_error_def)
  next
    case equal
    note fp = sys_read_fp [OF equal(1)]
    show ?thesis
      apply (rule exI [of _ 0], rule exI [of _ "Returned (int (length u))"], rule exI [of _ u])
      using fp equal(2) by simp
  qed
qed

subsection \<open>tb_write_char\<close>

lemma tb_write_char_cases:
  assumes "tb_write_char fd c w = Some (ok, w')"
  obtains
    (retry) w1 where "sys_write fd [c] w = Some (- 1, w1)" "errno w1 = EINTR"
      "tb_write_char fd c w1 = Some (ok, w')"
  | (failed) w1 where "sys_write fd [c] w = Some (- 1, w1)" "errno w1 \<noteq> EINTR" "\<not> ok"
      "w' = g_set_error Could_not_write_data (g_io_error_from_errno (errno w1)) w1"
  | (wrote) k where "sys_write fd [c] w = Some (k, w')" "0 \<le> k" "ok \<longleftrightarrow> 0 < k"
proof -
  from assms have
    "(case sys_write fd [c] w of
        None \<Rightarrow> None
      | Some (n, w1) \<Rightarrow>
          if n = - 1 then
            (if errno w1 = EINTR then tb_write_char fd c w1
             else Some (n > 0,
                        g_set_error Could_not_write_data (g_io_error_from_errno (errno w1)) w1))
          else Some (n > 0, w1)) = Some (ok, w')"
    by (subst (asm) tb_write_char.simps) simp
  then obtain n w1 where wr: "sys_write fd [c] w = Some (n, w1)"
    and r: "(if n = - 1 then
            (if errno w1 = EINTR then tb_write_char fd c w1
             else Some (n > 0,
                        g_set_error Could_not_write_data (g_io_error_from_errno (errno w1)) w1))
          else Some (n > 0, w1)) = Some (ok, w')"
    by (auto split: option.splits)
  from sys_write_fp [OF wr] have nb: "n = - 1 \<or> 0 \<le> n" by blast
  show thesis
  proof (cases "n = - 1")
    case True
    show ?thesis
    proof (cases "errno w1 = EINTR")
      case e: True
      with r True have "tb_write_char fd c w1 = Some (ok, w')" by simp
      with wr True e show ?thesis by (intro retry) simp_all
    next
      case e: False
      with r True have "\<not> ok"
        "w' = g_set_error Could_not_write_data (g_io_error_from_errno (errno w1)) w1"
        by auto
      with wr True e show ?thesis by (intro failed) simp_all
    qed
  next
    case False
    with r have "ok \<longleftrightarrow> 0 < n" "w1 = w'" by auto
    with wr False nb show ?thesis by (intro wrote [of n]) auto
  qed
qed

lemma tb_write_char_fp:
  "tb_write_char fd c w = Some (ok, w') \<Longrightarrow>
     \<exists>m res. trace w' = trace w @ replicate m (EvWrite (fds w fd) [c] (Failed EINTR)) @
                               [EvWrite (fds w fd) [c] res] \<and>
       fds w' = fds w \<and> (ok \<longleftrightarrow> res = Returned 1) \<and>
       (res = Returned 1 \<or> res = Returned 0 \<or> (\<exists>e. res = Failed e \<and> e \<noteq> EINTR)) \<and>
       (if returned res then err w' = err w else err w' \<noteq> None)"
proof (induction fd c w arbitrary: ok w' rule: tb_write_char.induct)
  case (1 fd c w)
  let ?T = "fds w fd"
  from "1.prems" show ?case
  proof (cases rule: tb_write_char_cases)
    case (retry w1)
    note fp = sys_write_fp [OF retry(1)]
    from fp retry(2) have e1: "err w1 = err w" and f1: "fds w1 = fds w"
      and t1: "trace w1 = trace w @ [EvWrite ?T [c] (Failed EINTR)]" by simp_all
    from "1.IH" [OF retry(1) refl _ retry(2,3)]
    obtain m res where
      tr: "trace w' = trace w1 @ replicate m (EvWrite (fds w1 fd) [c] (Failed EINTR)) @
                               [EvWrite (fds w1 fd) [c] res]"
      and rest: "fds w' = fds w1" "ok \<longleftrightarrow> res = Returned 1"
        "res = Returned 1 \<or> res = Returned 0 \<or> (\<exists>e. res = Failed e \<and> e \<noteq> EINTR)"
        "if returned res then err w' = err w1 else err w' \<noteq> None"
      by auto
    from tr t1 f1 have
      "trace w' = trace w @ replicate (Suc m) (EvWrite ?T [c] (Failed EINTR)) @ [EvWrite ?T [c] res]"
      by simp
    with rest e1 f1 show ?thesis by metis
  next
    case (failed w1)
    note fp = sys_write_fp [OF failed(1)]
    show ?thesis
      apply (rule exI [of _ 0], rule exI [of _ "Failed (errno w1)"])
      using fp failed(2-) by simp
  next
    case (wrote k)
    note fp = sys_write_fp [OF wrote(1)]
    show ?thesis
      apply (rule exI [of _ 0], rule exI [of _ "Returned k"])
      using fp wrote(2-) by auto
  qed
qed

subsection \<open>The write loop of copy_key\<close>

lemma copy_key_write_cases:
  assumes "copy_key_write to buffer w = Some (k, w')"
  obtains
    (retry) w1 where "sys_write to buffer w = Some (- 1, w1)" "errno w1 = EINTR"
      "copy_key_write to buffer w1 = Some (k, w')"
  | (failed) "sys_write to buffer w = Some (- 1, w')" "errno w' \<noteq> EINTR" "k = - 1"
  | (wrote) "sys_write to buffer w = Some (k, w')" "0 \<le> k" "k \<le> int (length buffer)"
proof -
  from assms have
    "(case sys_write to buffer w of
        None \<Rightarrow> None
      | Some (k, w1) \<Rightarrow>
          if k < 0 \<and> errno w1 = EINTR then copy_key_write to buffer w1 else Some (k, w1))
     = Some (k, w')"
    by (subst (asm) copy_key_write.simps) simp
  then obtain j w1 where wr: "sys_write to buffer w = Some (j, w1)"
    and r: "(if j < 0 \<and> errno w1 = EINTR then copy_key_write to buffer w1 else Some (j, w1))
             = Some (k, w')"
    by (auto split: option.splits)
  from sys_write_fp [OF wr] have nb: "j = - 1 \<or> 0 \<le> j \<and> j \<le> int (length buffer)" by blast
  show thesis
  proof (cases "j < 0")
    case True
    with nb have j: "j = - 1" by auto
    show ?thesis
    proof (cases "errno w1 = EINTR")
      case e: True
      with r j have "copy_key_write to buffer w1 = Some (k, w')" by simp
      with wr j e show ?thesis by (intro retry) simp_all
    next
      case e: False
      with r j have "k = - 1" "w1 = w'" by auto
      with wr j e show ?thesis by (intro failed) auto
    qed
  next
    case False
    with r have "k = j" "w1 = w'" by auto
    with wr False nb show ?thesis by (intro wrote) auto
  qed
qed

lemma copy_key_write_fp:
  "copy_key_write to buffer w = Some (k, w') \<Longrightarrow>
     \<exists>m. trace w' = trace w @ replicate m (EvWrite (fds w to) buffer (Failed EINTR)) @
                             [EvWrite (fds w to) buffer (call_result k w')] \<and>
       fds w' = fds w \<and> err w' = err w \<and>
       (k = - 1 \<and> errno w' \<noteq> EINTR \<or> 0 \<le> k \<and> k \<le> int (length buffer))"
proof (induction to buffer w arbitrary: k w' rule: copy_key_write.induct)
  case (1 to buffer w)
  let ?T = "fds w to"
  from "1.prems" show ?case
  proof (cases rule: copy_key_write_cases)
    case (retry w1)
    note fp = sys_write_fp [OF retry(1)]
    from fp retry(2) have e1: "err w1 = err w" and f1: "fds w1 = fds w"
      and t1: "trace w1 = trace w @ [EvWrite ?T buffer (Failed EINTR)]" by simp_all
    from "1.IH" [OF retry(1) refl _ retry(3)] retry(2)
    obtain m where
      tr: "trace w' = trace w1 @ replicate m (EvWrite (fds w1 to) buffer (Failed EINTR)) @
                               [EvWrite (fds w1 to) buffer (call_result k w')]"
      and rest: "fds w' = fds w1" "err w' = err w1"
        "k = - 1 \<and> errno w' \<noteq> EINTR \<or> 0 \<le> k \<and> k \<le> int (length buffer)"
      by auto
    from tr t1 f1 have
      "trace w' = trace w @ replicate (Suc m) (EvWrite ?T buffer (Failed EINTR)) @
                    [EvWrite ?T buffer (call_result k w')]"
      by simp
    with rest e1 f1 show ?thesis by metis
  next
    case failed
    note fp = sys_write_fp [OF failed(1)]
    show ?thesis
      apply (rule exI [of _ 0])
      using fp failed(2-) by simp
  next
    case wrote
    note fp = sys_write_fp [OF wrote(1)]
    show ?thesis
      apply (rule exI [of _ 0])
      using fp wrote(2-) by simp
  qed
qed

subsection \<open>tb_read_all\<close>

lemma tb_read_all_loop_cases:
  assumes "tb_read_all_loop fd got nread nbyte w = Some ((n, got'), w')"
  obtains
    (eintr_again) w1 where "sys_read fd nbyte w = Some ((- 1, []), w1)" "errno w1 = EINTR"
      "0 < nbyte" "tb_read_all_loop fd got nread nbyte w1 = Some ((n, got'), w')"
  | (eintr_stop) "sys_read fd nbyte w = Some ((- 1, []), w')" "errno w' = EINTR"
      "nbyte = 0" "n = nread" "got' = got"
  | (failed) w1 where "sys_read fd nbyte w = Some ((- 1, []), w1)" "errno w1 \<noteq> EINTR"
      "0 < errno w1" "n = - int (errno w1)" "got' = got"
      "w' = g_set_error Input_error_while_reading (g_io_error_from_errno (errno w1)) w1"
  | (eof) "sys_read fd nbyte w = Some ((0, []), w')" "n = nread" "got' = got"
  | (more) chunk w1 where "sys_read fd nbyte w = Some ((int (length chunk), chunk), w1)"
      "0 < length chunk" "length chunk < nbyte"
      "tb_read_all_loop fd (got @ chunk) (nread + int (length chunk)) (nbyte - length chunk) w1
         = Some ((n, got'), w')"
  | (full) chunk where "sys_read fd nbyte w = Some ((int (length chunk), chunk), w')"
      "0 < length chunk" "length chunk = nbyte" "n = nread + int (length chunk)" "got' = got @ chunk"
proof -
  from assms have
    "(case sys_read fd nbyte w of
        None \<Rightarrow> None
      | Some ((n, chunk), w1) \<Rightarrow>
          if n < 0 then
            (let errsv = errno w1 in
             if errsv = EINTR then
               (if nbyte > 0 then tb_read_all_loop fd got nread nbyte w1
                else Some ((nread, got), w1))
             else Some ((if n > 0 then n else - int errsv, got),
                        g_set_error Input_error_while_reading (g_io_error_from_errno errsv) w1))
          else if n = 0 then Some ((nread, got), w1)
          else
            (if nbyte - nat n > 0
             then tb_read_all_loop fd (got @ chunk) (nread + n) (nbyte - nat n) w1
             else Some ((nread + n, got @ chunk), w1))) = Some ((n, got'), w')"
    by (subst (asm) tb_read_all_loop.simps) simp
  then obtain j chunk w1 where rd: "sys_read fd nbyte w = Some ((j, chunk), w1)"
    and r: "(if j < 0 then
            (let errsv = errno w1 in
             if errsv = EINTR then
               (if nbyte > 0 then tb_read_all_loop fd got nread nbyte w1
                else Some ((nread, got), w1))
             else Some ((if j > 0 then j else - int errsv, got),
                        g_set_error Input_error_while_reading (g_io_error_from_errno errsv) w1))
          else if j = 0 then Some ((nread, got), w1)
          else
            (if nbyte - nat j > 0
             then tb_read_all_loop fd (got @ chunk) (nread + j) (nbyte - nat j) w1
             else Some ((nread + j, got @ chunk), w1))) = Some ((n, got'), w')"
    by (auto split: option.splits)
  from sys_read_fp [OF rd]
  have nb: "if j < 0 then j = - 1 \<and> chunk = [] \<and> 0 < errno w1
            else j = int (length chunk) \<and> length chunk \<le> nbyte"
    by presburger
  show thesis
  proof (cases "j < 0")
    case True
    with nb have j: "j = - 1" and c: "chunk = []" and pos: "0 < errno w1" by simp_all
    show ?thesis
    proof (cases "errno w1 = EINTR")
      case e: True
      show ?thesis
      proof (cases "nbyte > 0")
        case True
        with r j e have "tb_read_all_loop fd got nread nbyte w1 = Some ((n, got'), w')"
          by (simp add: Let_def)
        with rd j c e True show ?thesis by (intro eintr_again) simp_all
      next
        case False
        with r j e have "n = nread" "got' = got" "w1 = w'" by (auto simp: Let_def)
        with rd j c e False show ?thesis by (intro eintr_stop) auto
      qed
    next
      case e: False
      with r j have "n = - int (errno w1)" "got' = got"
        "w' = g_set_error Input_error_while_reading (g_io_error_from_errno (errno w1)) w1"
        by (auto simp: Let_def)
      with rd j c e pos show ?thesis by (intro failed) simp_all
    qed
  next
    case False
    with nb have j: "j = int (length chunk)" and le: "length chunk \<le> nbyte" by simp_all
    show ?thesis
    proof (cases "chunk = []")
      case True
      with r j have "n = nread" "got' = got" "w1 = w'" by auto
      with rd j True show ?thesis by (intro eof) auto
    next
      case ne: False
      show ?thesis
      proof (cases "length chunk < nbyte")
        case True
        with r j ne have
          "tb_read_all_loop fd (got @ chunk) (nread + int (length chunk)) (nbyte - length chunk) w1
             = Some ((n, got'), w')" by simp
        with rd j ne True show ?thesis by (intro more [of chunk w1]) simp_all
      next
        case False
        with le have eq: "length chunk = nbyte" by simp
        with r j ne have "n = nread + int (length chunk)" "got' = got @ chunk" "w1 = w'" by auto
        with rd j ne eq show ?thesis by (intro full [of chunk]) auto
      qed
    qed
  qed
qed


lemma tb_read_all_loop_fp:
  "tb_read_all_loop fd got nread nbyte w = Some ((n, got'), w') \<Longrightarrow> 0 \<le> nread \<Longrightarrow>
     \<exists>evs. trace w' = trace w @ evs \<and> fds w' = fds w \<and>
       (\<forall>e\<in>set evs. is_read_of (fds w fd) e) \<and>
       got' = got @ bytes_read evs \<and> length (bytes_read evs) \<le> nbyte \<and>
       (if 0 \<le> n then n = nread + int (length (bytes_read evs)) \<and> err w' = err w
        else err w' \<noteq> None)"
proof (induction fd got nread nbyte w arbitrary: n got' w' rule: tb_read_all_loop.induct)
  case (1 fd got nread nbyte w)
  let ?T = "fds w fd"
  from "1.prems"(1) show ?case
  proof (cases rule: tb_read_all_loop_cases)
    case (eintr_again w1)
    note fp = sys_read_fp [OF eintr_again(1)]
    from fp eintr_again(2) have e1: "err w1 = err w" and f1: "fds w1 = fds w"
      and t1: "trace w1 = trace w @ [EvRead ?T nbyte (Failed EINTR) []]" by simp_all
    from "1.IH"(1) [OF eintr_again(1) refl refl _ refl eintr_again(2,3,4) "1.prems"(2)]
    obtain evs where
      tr: "trace w' = trace w1 @ evs"
      and rest: "fds w' = fds w1" "\<forall>e\<in>set evs. is_read_of (fds w1 fd) e"
        "got' = got @ bytes_read evs" "length (bytes_read evs) \<le> nbyte"
        "if 0 \<le> n then n = nread + int (length (bytes_read evs)) \<and> err w' = err w1
         else err w' \<noteq> None"
      by auto
    show ?thesis
      apply (rule exI [of _ "EvRead ?T nbyte (Failed EINTR) [] # evs"])
      using tr rest t1 e1 f1 by simp
  next
    case eintr_stop
    note fp = sys_read_fp [OF eintr_stop(1)]
    show ?thesis
      apply (rule exI [of _ "[EvRead ?T nbyte (Failed EINTR) []]"])
      using fp eintr_stop(2-) "1.prems"(2) by simp
  next
    case (failed w1)
    note fp = sys_read_fp [OF failed(1)]
    show ?thesis
      apply (rule exI [of _ "[EvRead ?T nbyte (Failed (errno w1)) []]"])
      using fp failed(3-) by simp
  next
    case eof
    note fp = sys_read_fp [OF eof(1)]
    show ?thesis
      apply (rule exI [of _ "[EvRead ?T nbyte (Returned 0) []]"])
      using fp eof(2-) "1.prems"(2) by simp
  next
    case (more chunk w1)
    note fp = sys_read_fp [OF more(1)]
    from fp have e1: "err w1 = err w" and f1: "fds w1 = fds w"
      and t1: "trace w1 = trace w @ [EvRead ?T nbyte (Returned (int (length chunk))) chunk]" by simp_all
    have pos: "0 \<le> nread + int (length chunk)" using "1.prems"(2) by simp
    have rec: "tb_read_all_loop fd (got @ chunk) (nread + int (length chunk))
                 (nbyte - nat (int (length chunk))) w1 = Some ((n, got'), w')"
      using more(4) by simp
    from "1.IH"(2) [OF more(1) refl refl _ _ _ rec pos] more(2,3)
    obtain evs where
      tr: "trace w' = trace w1 @ evs"
      and rest: "fds w' = fds w1" "\<forall>e\<in>set evs. is_read_of (fds w1 fd) e"
        "got' = (got @ chunk) @ bytes_read evs" "length (bytes_read evs) \<le> nbyte - length chunk"
        "if 0 \<le> n then n = nread + int (length chunk) + int (length (bytes_read evs)) \<and> err w' = err w1
         else err w' \<noteq> None"
      by auto
    show ?thesis
      apply (rule exI [of _ "EvRead ?T nbyte (Returned (int (length chunk))) chunk # evs"])
      using tr rest t1 e1 f1 more(3) by auto
  next
    case (full chunk)
    note fp = sys_read_fp [OF full(1)]
    show ?thesis
      apply (rule exI [of _ "[EvRead ?T nbyte (Returned (int (length chunk))) chunk]"])
      using fp full(2-) "1.prems"(2) by simp
  qed
qed



subsection \<open>copy_key\<close>

lemma copy_key_fp:
  assumes run: "copy_key K path to w = Some (ok, w')"
  shows "\<exists>opn rds wrs.
     trace w' = trace w @ EvOpen (File path) O_RDONLY opn # rds @ wrs \<and>
     (\<forall>e\<in>set rds. is_read_of (Some (File path)) e) \<and>
     (if ok then err w' = err w else err w' \<noteq> None) \<and>
     ((\<exists>e. opn = Failed e) \<and> rds = [] \<and> wrs = [] \<and> \<not> ok \<and> fds w' = fds w \<or>
      (\<exists>from. opn = Returned from \<and> 0 \<le> from \<and> fds w from = None \<and>
              fds w' = (fds w)(from \<mapsto> File path)) \<and>
      (wrs = [] \<and> \<not> ok \<or>
       length (bytes_read rds) = K \<and>
       (\<exists>m res. wrs = replicate m (EvWrite (fds w' to) (bytes_read rds) (Failed EINTR)) @
                      [EvWrite (fds w' to) (bytes_read rds) res] \<and>
          (ok \<longleftrightarrow> res = Returned (int K)) \<and>
          ((\<exists>k. res = Returned k \<and> 0 \<le> k \<and> k \<le> int K) \<or> (\<exists>e. res = Failed e \<and> e \<noteq> EINTR)) \<and>
          (\<not> ok \<and> err w = None \<longrightarrow>
             err w' = Some (GError Io_error_while_writing_key_data
                              (g_io_error_from_errno (errno w')))))))"
proof -
  from run obtain "from" w1 where
    op: "sys_open (File path) O_RDONLY w = Some (from, w1)"
    and r1: "(if from < 0
       then Some (False, g_set_error Could_not_open_key_file (g_io_error_from_errno (errno w1)) w1)
       else do {
         ((n, got), w2) \<leftarrow> tb_read_all from K w1;
         let buffer = got @ replicate (K - length got) (CHR 0x00) in
         if n < 0 then Some (False, w2)
         else if n \<noteq> int K
         then Some (False, g_set_error Could_not_read_entire_key_from_disk G_IO_ERROR_FAILED w2)
         else do {
           (k, w3) \<leftarrow> copy_key_write to (take (nat n) buffer) w2;
           if k \<noteq> n
           then Some (False, g_set_error Io_error_while_writing_key_data
                               (g_io_error_from_errno (errno w3)) w3)
           else Some (True, w3)
         }
       }) = Some (ok, w')"
    by (auto simp: copy_key_def split: bind_splits)
  from sys_open_fp [OF op] have
    t1: "trace w1 = trace w @ [EvOpen (File path) O_RDONLY (call_result from w1)]"
    and e1: "err w1 = err w"
    and f1: "if 0 \<le> from then fds w1 = (fds w)(from \<mapsto> File path) \<and> fds w from = None
             else from = - 1 \<and> fds w1 = fds w \<and> 0 < errno w1"
    by simp_all
  show ?thesis
  proof (cases "from < 0")
    case True
    with r1 have "\<not> ok"
      "w' = g_set_error Could_not_open_key_file (g_io_error_from_errno (errno w1)) w1"
      by auto
    with t1 e1 f1 True show ?thesis
      by - (rule exI [of _ "Failed (errno w1)"], rule exI [of _ "[]"], rule exI [of _ "[]"], simp)
  next
    case False
    with f1 have f1': "fds w1 = (fds w)(from \<mapsto> File path)" "fds w from = None" by simp_all
    from False t1 have t1': "trace w1 = trace w @ [EvOpen (File path) O_RDONLY (Returned from)]"
      by simp
    from r1 False obtain n got w2 where
      ra: "tb_read_all_loop from [] 0 K w1 = Some ((n, got), w2)"
      and r2: "(let buffer = got @ replicate (K - length got) (CHR 0x00) in
         if n < 0 then Some (False, w2)
         else if n \<noteq> int K
         then Some (False, g_set_error Could_not_read_entire_key_from_disk G_IO_ERROR_FAILED w2)
         else do {
           (k, w3) \<leftarrow> copy_key_write to (take (nat n) buffer) w2;
           if k \<noteq> n
           then Some (False, g_set_error Io_error_while_writing_key_data
                               (g_io_error_from_errno (errno w3)) w3)
           else Some (True, w3)
         }) = Some (ok, w')"
      by (auto simp: tb_read_all_def split: bind_splits)
    from tb_read_all_loop_fp [OF ra] f1' obtain rds where
      t2: "trace w2 = trace w1 @ rds" and f2: "fds w2 = fds w1"
      and rd: "\<forall>e\<in>set rds. is_read_of (Some (File path)) e"
      and g: "got = bytes_read rds" and le: "length (bytes_read rds) \<le> K"
      and n: "if 0 \<le> n then n = 0 + int (length (bytes_read rds)) \<and> err w2 = err w1
              else err w2 \<noteq> None"
      by auto
    have opened: "\<exists>fr. Returned from = Returned fr \<and> 0 \<le> fr \<and> fds w fr = None \<and>
              fds w2 = (fds w)(fr \<mapsto> File path)"
      using False f1' f2 by simp
    show ?thesis
    proof (cases "n < 0")
      case neg: True
      with r2 have "\<not> ok" "w' = w2" by (auto simp: Let_def)
      with t1' t2 rd n neg opened show ?thesis
        by - (rule exI [of _ "Returned from"], rule exI [of _ rds], rule exI [of _ "[]"], simp)
    next
      case nonneg: False
      with n have n': "n = int (length (bytes_read rds))" and e2: "err w2 = err w1" by simp_all
      show ?thesis
      proof (cases "n = int K")
        case ne: False
        with r2 nonneg have "\<not> ok"
          "w' = g_set_error Could_not_read_entire_key_from_disk G_IO_ERROR_FAILED w2"
          by (auto simp: Let_def)
        with t1' t2 rd opened show ?thesis
          by - (rule exI [of _ "Returned from"], rule exI [of _ rds], rule exI [of _ "[]"], simp)
      next
        case eq: True
        with n' have len: "length (bytes_read rds) = K" by simp
        with g have buf: "take (nat n) (got @ replicate (K - length got) (CHR 0x00)) = bytes_read rds"
          using eq by simp
        from r2 nonneg eq buf obtain k w3 where
          cw: "copy_key_write to (bytes_read rds) w2 = Some (k, w3)"
          and r3: "(if k \<noteq> int K
             then Some (False, g_set_error Io_error_while_writing_key_data
                                 (g_io_error_from_errno (errno w3)) w3)
             else Some (True, w3)) = Some (ok, w')"
          by (auto simp: Let_def split: bind_splits)
        from copy_key_write_fp [OF cw] len obtain m where
          t3: "trace w3 = trace w2 @ replicate m (EvWrite (fds w2 to) (bytes_read rds) (Failed EINTR)) @
                             [EvWrite (fds w2 to) (bytes_read rds) (call_result k w3)]"
          and f3: "fds w3 = fds w2" and e3: "err w3 = err w2"
          and kb: "k = - 1 \<and> errno w3 \<noteq> EINTR \<or> 0 \<le> k \<and> k \<le> int K"
          by auto
        from r3 have okk: "ok \<longleftrightarrow> k = int K"
          and w': "w' = (if k \<noteq> int K
             then g_set_error Io_error_while_writing_key_data (g_io_error_from_errno (errno w3)) w3
             else w3)"
          by (auto split: if_splits)
        have fw: "fds w' = fds w2" and tw: "trace w' = trace w3" and ew: "errno w' = errno w3"
          using w' f3 by (simp_all split: if_splits)
        have er: "if ok then err w' = err w else err w' \<noteq> None"
          using okk w' e3 e2 e1 by simp
        have er2: "\<not> ok \<and> err w = None \<longrightarrow>
                err w' = Some (GError Io_error_while_writing_key_data
                                 (g_io_error_from_errno (errno w')))"
          using okk w' e3 e2 e1 by simp
        let ?wrs = "replicate m (EvWrite (fds w' to) (bytes_read rds) (Failed EINTR)) @
                             [EvWrite (fds w' to) (bytes_read rds) (call_result k w3)]"
        have tr: "trace w' = trace w @ EvOpen (File path) O_RDONLY (Returned from) # rds @ ?wrs"
          using tw t3 t2 t1' fw by simp
        have okr: "ok \<longleftrightarrow> call_result k w3 = Returned (int K)"
          using okk kb by (auto simp: call_result_def)
        have kr: "(\<exists>j. call_result k w3 = Returned j \<and> 0 \<le> j \<and> j \<le> int K) \<or>
                  (\<exists>e. call_result k w3 = Failed e \<and> e \<noteq> EINTR)"
          using kb by (auto simp: call_result_def)
        have opened': "\<exists>fr. Returned from = Returned fr \<and> 0 \<le> fr \<and> fds w fr = None \<and>
              fds w' = (fds w)(fr \<mapsto> File path)"
          using opened fw by simp
        show ?thesis
          apply (rule exI [of _ "Returned from"], rule exI [of _ rds], rule exI [of _ ?wrs])
          apply (intro conjI)
          using tr apply simp
          using rd apply simp
          using er apply simp
          apply (rule disjI2)
          apply (intro conjI)
          using opened' apply simp
          apply (rule disjI2)
          apply (intro conjI)
          using len apply simp
          apply (rule exI [of _ m], rule exI [of _ "call_result k w3"])
          using okr kr er2 apply simp
          done
      qed
    qed
  qed
qed


lemma read_is_no_write: "is_read_of T e \<Longrightarrow> \<not> is_write e"
  by (cases e) simp_all

lemma new_events_append [simp]: "trace w' = trace w @ evs \<Longrightarrow> new_events w w' = evs"
  by (simp add: new_events_def)

lemma bytes_read_reads_only:
  "\<forall>e\<in>set wrs. is_write e \<Longrightarrow> bytes_read wrs = []"
  by (induction wrs rule: bytes_read.induct) simp_all

subsection \<open>tb_device_authorize\<close>

lemma key_phase_no_grant: "key_phase_event e \<Longrightarrow> \<not> is_grant_event e"
  by (induction e rule: key_phase_event.induct) simp_all

lemma key_phase_no_uid_read: "key_phase_event e \<Longrightarrow> \<not> is_read_of (Some (Attr ''unique_id'')) e"
  by (induction e rule: key_phase_event.induct) simp_all

lemma read_of_file_key_phase: "is_read_of (Some (File p)) e \<Longrightarrow> key_phase_event e"
  by (cases e) auto

lemma authorize_grant_fp:
  assumes run: "authorize_grant d sec w = Some (ok, w')"
  shows "\<exists>opn ws. trace w' = trace w @ EvOpen (Attr ''authorized'') O_WRONLY opn # ws \<and>
     fds w' = fds w \<and>
     (if ok then err w' = err w
      else err w' \<noteq> None \<or>
           EvWrite (Some (Attr ''authorized'')) [char_of sec] (Returned 0) \<in> set ws) \<and>
     ((\<exists>e. opn = Failed e) \<and> ws = [] \<and> \<not> ok \<or>
      (\<exists>fd m res cl. opn = Returned fd \<and> 0 \<le> fd \<and>
         ws = replicate m (EvWrite (Some (Attr ''authorized'')) [char_of sec] (Failed EINTR)) @
              [EvWrite (Some (Attr ''authorized'')) [char_of sec] res,
               EvClose fd (Some (Attr ''authorized'')) cl] \<and>
         (ok \<longleftrightarrow> res = Returned 1 \<and> cl = Returned 0)))"
proof -
  from run obtain fd w1 where
    op: "tb_openat d ''authorized'' O_WRONLY w = Some (fd, w1)"
    and r1: "(if fd < 0 then Some (False, w1)
       else do {
         (ok, w2) \<leftarrow> tb_write_char fd (char_of sec) w1;
         if \<not> ok then do { (r, w3) \<leftarrow> sys_close fd w2; Some (False, w3) }
         else tb_close fd w2
       }) = Some (ok, w')"
    by (auto simp: authorize_grant_def split: bind_splits)
  from tb_openat_fp [OF op] have
    t1: "trace w1 = trace w @ [EvOpen (Attr ''authorized'') O_WRONLY (call_result fd w1)]"
    and f1: "if 0 \<le> fd then fds w1 = (fds w)(fd \<mapsto> Attr ''authorized'') \<and> fds w fd = None \<and> err w1 = err w
      else fd = - 1 \<and> fds w1 = fds w \<and> err w1 \<noteq> None"
    by simp_all
  show ?thesis
  proof (cases "fd < 0")
    case True
    with r1 have "\<not> ok" "w' = w1" by auto
    with t1 f1 True show ?thesis
      by - (rule exI [of _ "Failed (errno w1)"], rule exI [of _ "[]"], simp)
  next
    case False
    with f1 have f1': "fds w1 = (fds w)(fd \<mapsto> Attr ''authorized'')" "fds w fd = None"
      and e1: "err w1 = err w" by simp_all
    from False t1 have t1': "trace w1 = trace w @ [EvOpen (Attr ''authorized'') O_WRONLY (Returned fd)]"
      by simp
    let ?T = "Some (Attr ''authorized'')"
    from r1 False obtain okw w2 where
      wc: "tb_write_char fd (char_of sec) w1 = Some (okw, w2)"
      and r2: "(if \<not> okw then do { (r, w3) \<leftarrow> sys_close fd w2; Some (False, w3) }
         else tb_close fd w2) = Some (ok, w')"
      by (auto split: bind_splits)
    from tb_write_char_fp [OF wc] f1' obtain m res where
      t2: "trace w2 = trace w1 @ replicate m (EvWrite ?T [char_of sec] (Failed EINTR)) @
                               [EvWrite ?T [char_of sec] res]"
      and f2: "fds w2 = fds w1" and okres: "okw \<longleftrightarrow> res = Returned 1"
      and rs: "res = Returned 1 \<or> res = Returned 0 \<or> (\<exists>e. res = Failed e \<and> e \<noteq> EINTR)"
      and e2: "if returned res then err w2 = err w1 else err w2 \<noteq> None"
      by auto
    have fdT: "fds w2 fd = ?T" using f2 f1' by simp
    have restored: "(fds w2)(fd := None) = fds w" using f2 f1' by auto
    show ?thesis
    proof (cases okw)
      case True
      with r2 have tc: "tb_close fd w2 = Some (ok, w')" by simp
      from tb_close_fp [OF tc] fdT restored have
        t3: "trace w' = trace w2 @ [EvClose fd ?T (if ok then Returned 0 else Failed (errno w'))]"
        and f3: "fds w' = fds w"
        and e3: "if ok then err w' = err w2 else err w' \<noteq> None"
        by simp_all
      from True okres have res: "res = Returned 1" by simp
      let ?cl = "if ok then Returned 0 else Failed (errno w')"
      show ?thesis
        apply (rule exI [of _ "Returned fd"])
        apply (rule exI [of _ "replicate m (EvWrite ?T [char_of sec] (Failed EINTR)) @
                               [EvWrite ?T [char_of sec] res, EvClose fd ?T ?cl]"])
        apply (intro conjI)
        using t3 t2 t1' apply simp
        using f3 apply simp
        using e3 e2 e1 res apply simp
        apply (rule disjI2)
        apply (rule exI [of _ fd], rule exI [of _ m], rule exI [of _ res], rule exI [of _ ?cl])
        using False res apply simp
        done
    next
      case nok: False
      with r2 obtain r where cl: "sys_close fd w2 = Some (r, w')" and "\<not> ok"
        by (auto split: bind_splits)
      from sys_close_fp [OF cl] fdT restored have
        t3: "trace w' = trace w2 @ [EvClose fd ?T (call_result r w')]"
        and f3: "fds w' = fds w" and e3: "err w' = err w2"
        by simp_all
      from nok okres have res: "res \<noteq> Returned 1" by simp
      show ?thesis
        apply (rule exI [of _ "Returned fd"])
        apply (rule exI [of _ "replicate m (EvWrite ?T [char_of sec] (Failed EINTR)) @
                               [EvWrite ?T [char_of sec] res, EvClose fd ?T (call_result r w')]"])
        apply (intro conjI)
        using t3 t2 t1' apply simp
        using f3 apply simp
        using e3 e2 e1 res rs \<open>\<not> ok\<close> apply auto[1]
        apply (rule disjI2)
        apply (rule exI [of _ fd], rule exI [of _ m], rule exI [of _ res],
               rule exI [of _ "call_result r w'"])
        using False res \<open>\<not> ok\<close> apply simp
        done
    qed
  qed
qed


lemma is_read_of_bytes: "is_read_of T e \<Longrightarrow> \<exists>c n bs. e = EvRead T c n bs"
  by (cases e) simp_all

lemma tb_manager_ensure_key_fp:
  "tb_manager_ensure_key dev rep w = Some ((key, c), w') \<Longrightarrow>
     trace w' = trace w @ [EvEnsureKey (uid dev) rep key c] \<and> fds w' = fds w \<and>
     (if key = None then err w' \<noteq> None \<and> \<not> c else err w' = err w)"
  by (auto simp: tb_manager_ensure_key_def answered_def
           split: list.splits reply.splits option.splits)

lemma authorize_key_fp:
  assumes run: "authorize_key K dev d fd sec w = Some (after, w')"
  shows "\<exists>evs. trace w' = trace w @ evs \<and> (\<forall>e\<in>set evs. key_phase_event e) \<and>
     (\<forall>u rep p c. EvEnsureKey u rep p c \<in> set evs \<longrightarrow>
        after = None \<or> after = Some (if c then of_char (CHR ''1'') else sec)) \<and>
     (case after of
        None \<Rightarrow> err w' \<noteq> None
      | Some s \<Rightarrow> err w' = err w \<and>
          (\<exists>p c keyfd key. EvEnsureKey (uid dev) False (Some p) c \<in> set evs \<and>
             EvOpen (Attr ''key'') O_WRONLY (Returned keyfd) \<in> set evs \<and>
             EvWrite (Some (Attr ''key'')) key (Returned (int K)) \<in> set evs \<and> length key = K \<and>
             EvClose keyfd (Some (Attr ''key'')) (Returned 0) \<in> set evs))"
proof -
  from run obtain key created w1 where
    ek: "tb_manager_ensure_key dev False w = Some ((key, created), w1)"
    and r1: "(case key of
         None \<Rightarrow> Some (None, w1)
       | Some path \<Rightarrow>
           do {
             (keyfd, w2) \<leftarrow> tb_openat d ''key'' O_WRONLY w1;
             if keyfd < 0 then Some (None, w2)
             else do {
               (ok, w3) \<leftarrow> copy_key K path keyfd w2;
               if \<not> ok then do { (r, w4) \<leftarrow> sys_close fd w3; Some (None, w4) }
               else do {
                 (ok, w4) \<leftarrow> tb_close keyfd w3;
                 if \<not> ok then Some (None, w4)
                 else Some (Some (if created then of_char (CHR ''1'') else sec), w4)
               }
             }
           }) = Some (after, w')"
    by (auto simp: authorize_key_def split: bind_splits)
  let ?ek = "EvEnsureKey (uid dev) False key created"
  from tb_manager_ensure_key_fp [OF ek] have
    t1: "trace w1 = trace w @ [?ek]" and f1: "fds w1 = fds w"
    and e1: "if key = None then err w1 \<noteq> None \<and> \<not> created else err w1 = err w"
    by simp_all
  show ?thesis
  proof (cases key)
    case None
    with r1 have "after = None" "w' = w1" by auto
    with t1 e1 None show ?thesis
      by - (rule exI [of _ "[?ek]"], simp)
  next
    case (Some path)
    with e1 have e1': "err w1 = err w" by simp
    from r1 Some obtain keyfd w2 where
      op: "tb_openat d ''key'' O_WRONLY w1 = Some (keyfd, w2)"
      and r2: "(if keyfd < 0 then Some (None, w2)
             else do {
               (ok, w3) \<leftarrow> copy_key K path keyfd w2;
               if \<not> ok then do { (r, w4) \<leftarrow> sys_close fd w3; Some (None, w4) }
               else do {
                 (ok, w4) \<leftarrow> tb_close keyfd w3;
                 if \<not> ok then Some (None, w4)
                 else Some (Some (if created then of_char (CHR ''1'') else sec), w4)
               }
             }) = Some (after, w')"
      by (auto split: bind_splits)
    let ?op = "EvOpen (Attr ''key'') O_WRONLY (call_result keyfd w2)"
    from tb_openat_fp [OF op] have
      t2: "trace w2 = trace w1 @ [?op]"
      and f2: "if 0 \<le> keyfd then fds w2 = (fds w1)(keyfd \<mapsto> Attr ''key'') \<and> fds w1 keyfd = None \<and> err w2 = err w1
        else keyfd = - 1 \<and> fds w2 = fds w1 \<and> err w2 \<noteq> None"
      by simp_all
    show ?thesis
    proof (cases "keyfd < 0")
      case True
      with r2 have "after = None" "w' = w2" by auto
      with t1 t2 f2 True Some show ?thesis
        by - (rule exI [of _ "[?ek, ?op]"], simp add: call_result_def)
    next
      case False
      with f2 have f2': "fds w2 keyfd = Some (Attr ''key'')" and e2: "err w2 = err w1"
        by simp_all
      from False t2 have t2': "trace w2 = trace w1 @ [EvOpen (Attr ''key'') O_WRONLY (Returned keyfd)]"
        by simp
      from r2 False obtain okc w3 where
        ck: "copy_key K path keyfd w2 = Some (okc, w3)"
        and r3: "(if \<not> okc then do { (r, w4) \<leftarrow> sys_close fd w3; Some (None, w4) }
               else do {
                 (ok, w4) \<leftarrow> tb_close keyfd w3;
                 if \<not> ok then Some (None, w4)
                 else Some (Some (if created then of_char (CHR ''1'') else sec), w4)
               }) = Some (after, w')"
        by (auto split: bind_splits)
      from copy_key_fp [OF ck] obtain opn rds wrs where
        t3: "trace w3 = trace w2 @ EvOpen (File path) O_RDONLY opn # rds @ wrs"
        and rd: "\<forall>e\<in>set rds. is_read_of (Some (File path)) e"
        and e3: "if okc then err w3 = err w2 else err w3 \<noteq> None"
        and sh: "(\<exists>e. opn = Failed e) \<and> rds = [] \<and> wrs = [] \<and> \<not> okc \<and> fds w3 = fds w2 \<or>
          (\<exists>from. opn = Returned from \<and> 0 \<le> from \<and> fds w2 from = None \<and>
                  fds w3 = (fds w2)(from \<mapsto> File path)) \<and>
          (wrs = [] \<and> \<not> okc \<or>
           length (bytes_read rds) = K \<and>
           (\<exists>m res. wrs = replicate m (EvWrite (fds w3 keyfd) (bytes_read rds) (Failed EINTR)) @
                          [EvWrite (fds w3 keyfd) (bytes_read rds) res] \<and>
              (okc \<longleftrightarrow> res = Returned (int K))))"
        by blast
      have f3: "fds w3 keyfd = Some (Attr ''key'')"
        using sh f2' by auto
      have wk: "\<forall>e\<in>set wrs. key_phase_event e"
        using sh f3 by auto
      have rk: "\<forall>e\<in>set rds. key_phase_event e"
        using rd by (blast intro: read_of_file_key_phase)
      let ?copy = "EvOpen (File path) O_RDONLY opn # rds @ wrs"
      have ckp: "\<forall>e\<in>set ?copy. key_phase_event e"
        using wk rk by auto
      have tr3: "trace w3 = trace w @ ?ek # EvOpen (Attr ''key'') O_WRONLY (Returned keyfd) # ?copy"
        using t3 t2' t1 by simp
      show ?thesis
      proof (cases okc)
        case nok: False
        with r3 obtain r where cl: "sys_close fd w3 = Some (r, w')" and a: "after = None"
          by (auto split: bind_splits)
        from sys_close_fp [OF cl] have
          t4: "trace w' = trace w3 @ [EvClose fd (fds w3 fd) (call_result r w')]"
          and e4: "err w' = err w3" by simp_all
        show ?thesis
          apply (rule exI [of _ "?ek # EvOpen (Attr ''key'') O_WRONLY (Returned keyfd) # ?copy @
                   [EvClose fd (fds w3 fd) (call_result r w')]"])
          using t4 tr3 ckp a e4 e3 nok by simp
      next
        case okc: True
        with sh f3 obtain m where
          len: "length (bytes_read rds) = K"
          and wrs: "wrs = replicate m (EvWrite (Some (Attr ''key'')) (bytes_read rds) (Failed EINTR)) @
                          [EvWrite (Some (Attr ''key'')) (bytes_read rds) (Returned (int K))]"
          by auto
        from okc e3 have e3': "err w3 = err w2" by simp
        from r3 okc obtain okcl w4 where
          tc: "tb_close keyfd w3 = Some (okcl, w4)"
          and r4: "(if \<not> okcl then Some (None, w4)
                 else Some (Some (if created then of_char (CHR ''1'') else sec), w4)) = Some (after, w')"
          by (auto split: bind_splits)
        let ?cl = "EvClose keyfd (Some (Attr ''key'')) (if okcl then Returned 0 else Failed (errno w4))"
        from tb_close_fp [OF tc] f3 have
          t4: "trace w4 = trace w3 @ [?cl]"
          and e4: "if okcl then err w4 = err w3 else err w4 \<noteq> None"
          by simp_all
        from r4 have w': "w' = w4"
          and a: "after = (if okcl then Some (if created then of_char (CHR ''1'') else sec) else None)"
          by (auto split: if_splits)
        let ?evs = "?ek # EvOpen (Attr ''key'') O_WRONLY (Returned keyfd) # ?copy @ [?cl]"
        have tr: "trace w' = trace w @ ?evs" using w' t4 tr3 by simp
        have kp: "\<forall>e\<in>set ?evs. key_phase_event e" using ckp by simp
        have uniq: "\<forall>u rep p c. EvEnsureKey u rep p c \<in> set ?evs \<longrightarrow> c = created"
          using ckp wrs rd by (auto dest: is_read_of_bytes)
        show ?thesis
        proof (cases okcl)
          case False
          with a e4 w' have "after = None" "err w' \<noteq> None" by simp_all
          with tr kp show ?thesis
            by - (rule exI [of _ ?evs], simp)
        next
          case True
          with a e4 w' e3' e2 e1' have a': "after = Some (if created then of_char (CHR ''1'') else sec)"
            and e': "err w' = err w" by simp_all
          have ev: "EvEnsureKey (uid dev) False (Some path) created \<in> set ?evs"
            "EvOpen (Attr ''key'') O_WRONLY (Returned keyfd) \<in> set ?evs"
            "EvWrite (Some (Attr ''key'')) (bytes_read rds) (Returned (int K)) \<in> set ?evs"
            "EvClose keyfd (Some (Attr ''key'')) (Returned 0) \<in> set ?evs"
            using Some wrs True by simp_all
          show ?thesis
            apply (rule exI [of _ ?evs])
            apply (intro conjI)
            using tr apply simp
            using kp apply simp
            using uniq a' apply blast
            using a' e' ev len apply auto[1]
            done
        qed
      qed
    qed
  qed
qed


lemma uid_phase_fp:
  assumes op: "tb_openat d ''unique_id'' O_RDONLY w = Some (fd, w1)" and fd: "0 \<le> fd"
    and vf: "tb_verify_uid fd u w1 = Some (okv, w2)"
    and cl: "sys_close fd w2 = Some (r, w3)"
  shows "\<exists>U. trace w3 = trace w @ U \<and> (\<forall>e\<in>set U. pre_phase_event e) \<and> fds w3 = fds w \<and>
     (if okv then err w3 = err w else err w3 \<noteq> None) \<and>
     (\<forall>c n bs. EvRead (Some (Attr ''unique_id'')) c (Returned n) bs \<in> set U \<longrightarrow>
        (okv \<longleftrightarrow> bs = u) \<and>
        (bs \<noteq> u \<and> err w = None \<longrightarrow> (\<exists>x. err w3 = Some x \<and> uid_verification_error x)))"
proof -
  let ?T = "Some (Attr ''unique_id'')"
  from tb_openat_fp [OF op] fd have
    t1: "trace w1 = trace w @ [EvOpen (Attr ''unique_id'') O_RDONLY (Returned fd)]"
    and f1: "fds w1 = (fds w)(fd \<mapsto> Attr ''unique_id'')" "fds w fd = None"
    and e1: "err w1 = err w"
    by simp_all
  from tb_verify_uid_fp [OF vf] f1 obtain m res bs where
    t2: "trace w2 = trace w1 @ replicate m (EvRead ?T (length u) (Failed EINTR) []) @
                               [EvRead ?T (length u) res bs]"
    and f2: "fds w2 = fds w1" and okv: "okv \<longleftrightarrow> returned res \<and> bs = u"
    and e2: "if okv then err w2 = err w1 else err w2 \<noteq> None"
    and ve: "returned res \<and> bs \<noteq> u \<and> err w1 = None \<longrightarrow> (\<exists>x. err w2 = Some x \<and> uid_verification_error x)"
    by auto
  from sys_close_fp [OF cl] f2 f1 have
    t3: "trace w3 = trace w2 @ [EvClose fd ?T (call_result r w3)]"
    and e3: "err w3 = err w2" and f3: "fds w3 = fds w"
    by auto
  let ?U = "EvOpen (Attr ''unique_id'') O_RDONLY (Returned fd) #
            replicate m (EvRead ?T (length u) (Failed EINTR) []) @
            [EvRead ?T (length u) res bs, EvClose fd ?T (call_result r w3)]"
  have tr: "trace w3 = trace w @ ?U" using t3 t2 t1 by simp
  have ph: "\<forall>e\<in>set ?U. pre_phase_event e" by auto
  have rd: "\<forall>c n bs'. EvRead ?T c (Returned n) bs' \<in> set ?U \<longrightarrow> res = Returned n \<and> bs' = bs"
    by auto
  have ver: "\<forall>c n bs'. EvRead ?T c (Returned n) bs' \<in> set ?U \<longrightarrow>
        (okv \<longleftrightarrow> bs' = u) \<and>
        (bs' \<noteq> u \<and> err w = None \<longrightarrow> (\<exists>x. err w3 = Some x \<and> uid_verification_error x))"
  proof (intro allI impI)
    fix c n bs'
    assume "EvRead ?T c (Returned n) bs' \<in> set ?U"
    with rd have "res = Returned n" "bs' = bs" by blast+
    with okv ve e1 e3 show "(okv \<longleftrightarrow> bs' = u) \<and>
        (bs' \<noteq> u \<and> err w = None \<longrightarrow> (\<exists>x. err w3 = Some x \<and> uid_verification_error x))"
      by simp
  qed
  have er: "if okv then err w3 = err w else err w3 \<noteq> None"
    using e2 e3 e1 by simp
  show ?thesis
    apply (rule exI [of _ ?U])
    using tr ph f3 er ver by blast
qed


lemma authorize_grant_sum:
  assumes run: "authorize_grant d sec w = Some (ok, w')"
  shows "\<exists>GS. trace w' = trace w @ GS \<and> (\<forall>e\<in>set GS. grant_phase_event sec e) \<and>
     (\<exists>e\<in>set GS. is_grant_event e) \<and> fds w' = fds w \<and>
     (if ok then err w' = err w \<and>
                 EvWrite (Some (Attr ''authorized'')) [char_of sec] (Returned 1) \<in> set GS
      else err w' \<noteq> None \<or>
           EvWrite (Some (Attr ''authorized'')) [char_of sec] (Returned 0) \<in> set GS)"
proof -
  from authorize_grant_fp [OF run] obtain opn ws where
    tr: "trace w' = trace w @ EvOpen (Attr ''authorized'') O_WRONLY opn # ws"
    and f: "fds w' = fds w"
    and er: "if ok then err w' = err w
      else err w' \<noteq> None \<or>
           EvWrite (Some (Attr ''authorized'')) [char_of sec] (Returned 0) \<in> set ws"
    and sh: "(\<exists>e. opn = Failed e) \<and> ws = [] \<and> \<not> ok \<or>
      (\<exists>fd m res cl. opn = Returned fd \<and> 0 \<le> fd \<and>
         ws = replicate m (EvWrite (Some (Attr ''authorized'')) [char_of sec] (Failed EINTR)) @
              [EvWrite (Some (Attr ''authorized'')) [char_of sec] res,
               EvClose fd (Some (Attr ''authorized'')) cl] \<and>
         (ok \<longleftrightarrow> res = Returned 1 \<and> cl = Returned 0))"
    by blast
  let ?GS = "EvOpen (Attr ''authorized'') O_WRONLY opn # ws"
  from sh have ph: "\<forall>e\<in>set ws. grant_phase_event sec e"
    by auto
  from sh have one: "ok \<longrightarrow> EvWrite (Some (Attr ''authorized'')) [char_of sec] (Returned 1) \<in> set ws"
    by auto
  show ?thesis
    apply (rule exI [of _ ?GS])
    using tr ph f er one by auto
qed

lemma run_summaryI:
  assumes "evs = U @ KS @ GS"
    and "\<forall>e\<in>set U. pre_phase_event e" and "\<forall>e\<in>set KS. key_phase_event e"
    and "\<forall>e\<in>set GS. grant_phase_event sec' e"
    and "sec \<noteq> of_char (CHR ''2'') \<Longrightarrow> KS = [] \<and> sec' = sec"
    and "sec = of_char (CHR ''2'') \<Longrightarrow> \<exists>e\<in>set GS. is_grant_event e \<Longrightarrow>
           key_provisioned K dev KS \<and>
           (\<forall>u rep p c. EvEnsureKey u rep p c \<in> set KS \<longrightarrow>
              sec' = (if c then of_char (CHR ''1'') else of_char (CHR ''2'')))"
    and "\<And>c n bs. EvRead (Some (Attr ''unique_id'')) c (Returned n) bs \<in> set U \<Longrightarrow> bs \<noteq> uid dev \<Longrightarrow>
           \<not> ok \<and> KS = [] \<and> (\<forall>e\<in>set GS. \<not> is_grant_event e) \<and>
           (e0 = None \<longrightarrow> (\<exists>x. e1 = Some x \<and> uid_verification_error x))"
    and "if ok then e1 = e0 \<and>
                    (1 \<le> sec \<longrightarrow>
                       EvWrite (Some (Attr ''authorized'')) [char_of sec'] (Returned 1) \<in> set GS)
         else e1 \<noteq> None \<or>
              EvWrite (Some (Attr ''authorized'')) [char_of sec'] (Returned 0) \<in> set GS"
  shows "run_summary K sec dev ok e0 e1 evs"
proof -
  have a5: "sec \<noteq> of_char (CHR ''2'') \<longrightarrow> KS = [] \<and> sec' = sec"
    by (rule impI) (rule assms(5))
  have a6: "sec = of_char (CHR ''2'') \<and> (\<exists>e\<in>set GS. is_grant_event e) \<longrightarrow>
           key_provisioned K dev KS \<and>
           (\<forall>u rep p c. EvEnsureKey u rep p c \<in> set KS \<longrightarrow>
              sec' = (if c then of_char (CHR ''1'') else of_char (CHR ''2'')))"
    by (rule impI, elim conjE) (rule assms(6))
  have a7: "\<forall>c n bs. EvRead (Some (Attr ''unique_id'')) c (Returned n) bs \<in> set U \<and> bs \<noteq> uid dev \<longrightarrow>
           \<not> ok \<and> KS = [] \<and> (\<forall>e\<in>set GS. \<not> is_grant_event e) \<and>
           (e0 = None \<longrightarrow> (\<exists>x. e1 = Some x \<and> uid_verification_error x))"
    by (intro allI impI, elim conjE) (rule assms(7))
  show ?thesis
    unfolding run_summary_def
    apply (rule exI [of _ U], rule exI [of _ KS], rule exI [of _ GS], rule exI [of _ sec'])
    apply (intro conjI)
           apply (rule assms(1))
          apply (rule assms(2))
         apply (rule assms(3))
        apply (rule assms(4))
       apply (rule a5)
      apply (rule a6)
     apply (rule a7)
    apply (rule assms(8))
    done
qed


lemma authorize_in_dir_summary:
  assumes run: "authorize_in_dir K sec dev d w = Some (ok, w')"
  shows "\<exists>evs. trace w' = trace w @ evs \<and> run_summary K sec dev ok (err w) (err w') evs"
proof -
  from run obtain fd w1 where
    op: "tb_openat d ''unique_id'' O_RDONLY w = Some (fd, w1)"
    and r1: "(if fd < 0 then Some (False, w1)
       else do {
         (ok, w2) \<leftarrow> tb_verify_uid fd (uid dev) w1;
         (r, w3) \<leftarrow> sys_close fd w2;
         if \<not> ok then Some (False, w3)
         else if sec = of_char (CHR ''2'') then
           do {
             (after, w4) \<leftarrow> authorize_key K dev d fd sec w3;
             case after of
               None \<Rightarrow> Some (False, w4)
             | Some security' \<Rightarrow> authorize_grant d security' w4
           }
         else authorize_grant d sec w3
       }) = Some (ok, w')"
    by (auto simp: authorize_in_dir_def split: bind_splits)
  show ?thesis
  proof (cases "fd < 0")
    case True
    with r1 have nok: "\<not> ok" and w': "w' = w1" by auto
    from tb_openat_fp [OF op] True have
      t1: "trace w1 = trace w @ [EvOpen (Attr ''unique_id'') O_RDONLY (call_result fd w1)]"
      and e1: "err w1 \<noteq> None" by simp_all
    have "run_summary K sec dev ok (err w) (err w')
            [EvOpen (Attr ''unique_id'') O_RDONLY (call_result fd w1)]"
      by (rule run_summaryI [where U = "[EvOpen (Attr ''unique_id'') O_RDONLY (call_result fd w1)]"
            and KS = "[]" and GS = "[]" and sec' = sec])
         (use nok w' e1 in simp_all)
    with t1 w' show ?thesis by simp
  next
    case False
    then have fd: "0 \<le> fd" by simp
    from r1 False obtain okv w2 r w3 where
      vf: "tb_verify_uid fd (uid dev) w1 = Some (okv, w2)"
      and cl: "sys_close fd w2 = Some (r, w3)"
      and r2: "(if \<not> okv then Some (False, w3)
         else if sec = of_char (CHR ''2'') then
           do {
             (after, w4) \<leftarrow> authorize_key K dev d fd sec w3;
             case after of
               None \<Rightarrow> Some (False, w4)
             | Some security' \<Rightarrow> authorize_grant d security' w4
           }
         else authorize_grant d sec w3) = Some (ok, w')"
      by (auto split: bind_splits)
    from uid_phase_fp [OF op fd vf cl] obtain U where
      tU: "trace w3 = trace w @ U" and pU: "\<forall>e\<in>set U. pre_phase_event e"
      and eU: "if okv then err w3 = err w else err w3 \<noteq> None"
      and vU: "\<forall>c n bs. EvRead (Some (Attr ''unique_id'')) c (Returned n) bs \<in> set U \<longrightarrow>
        (okv \<longleftrightarrow> bs = uid dev) \<and>
        (bs \<noteq> uid dev \<and> err w = None \<longrightarrow> (\<exists>x. err w3 = Some x \<and> uid_verification_error x))"
      by blast
    show ?thesis
    proof (cases okv)
      case nv: False
      with r2 have nok: "\<not> ok" and w': "w' = w3" by auto
      have "run_summary K sec dev ok (err w) (err w') U"
        by (rule run_summaryI [where U = U and KS = "[]" and GS = "[]" and sec' = sec])
           (use nok w' eU nv pU vU in auto)
      with tU w' show ?thesis by simp
    next
      case v: True
      with eU have e3: "err w3 = err w" by simp
      from v vU have allgood:
        "\<And>c n bs. EvRead (Some (Attr ''unique_id'')) c (Returned n) bs \<in> set U \<Longrightarrow> bs = uid dev"
        by blast
      show ?thesis
      proof (cases "sec = of_char (CHR ''2'')")
        case plain: False
        with r2 v have gr: "authorize_grant d sec w3 = Some (ok, w')" by simp
        from authorize_grant_sum [OF gr] obtain GS where
          tG: "trace w' = trace w3 @ GS" and pG: "\<forall>e\<in>set GS. grant_phase_event sec e"
          and eG: "if ok then err w' = err w3 \<and>
                 EvWrite (Some (Attr ''authorized'')) [char_of sec] (Returned 1) \<in> set GS
            else err w' \<noteq> None \<or>
                 EvWrite (Some (Attr ''authorized'')) [char_of sec] (Returned 0) \<in> set GS"
          by blast
        have "run_summary K sec dev ok (err w) (err w') (U @ [] @ GS)"
          by (rule run_summaryI [where U = U and KS = "[]" and GS = GS and sec' = sec])
             (use plain pU pG eG e3 allgood in auto)
        with tU tG show ?thesis by simp
      next
        case secure: True
        with r2 v obtain after w4 where
          ak: "authorize_key K dev d fd sec w3 = Some (after, w4)"
          and r3: "(case after of
               None \<Rightarrow> Some (False, w4)
             | Some security' \<Rightarrow> authorize_grant d security' w4) = Some (ok, w')"
          by (auto split: bind_splits)
        from authorize_key_fp [OF ak] obtain KS where
          tK: "trace w4 = trace w3 @ KS" and pK: "\<forall>e\<in>set KS. key_phase_event e"
          and cK: "\<forall>u rep p c. EvEnsureKey u rep p c \<in> set KS \<longrightarrow>
                after = None \<or> after = Some (if c then of_char (CHR ''1'') else sec)"
          and aK: "case after of
              None \<Rightarrow> err w4 \<noteq> None
            | Some s \<Rightarrow> err w4 = err w3 \<and>
                (\<exists>p c keyfd key. EvEnsureKey (uid dev) False (Some p) c \<in> set KS \<and>
                   EvOpen (Attr ''key'') O_WRONLY (Returned keyfd) \<in> set KS \<and>
                   EvWrite (Some (Attr ''key'')) key (Returned (int K)) \<in> set KS \<and> length key = K \<and>
                   EvClose keyfd (Some (Attr ''key'')) (Returned 0) \<in> set KS)"
          by blast
        show ?thesis
        proof (cases after)
          case None
          with r3 aK have nok: "\<not> ok" and w': "w' = w4" and e4: "err w4 \<noteq> None" by auto
          have "run_summary K sec dev ok (err w) (err w') (U @ KS @ [])"
            by (rule run_summaryI [where U = U and KS = KS and GS = "[]" and sec' = sec])
               (use nok w' e4 pU pK secure allgood in auto)
          with tU tK w' show ?thesis by simp
        next
          case (Some s)
          with r3 have gr: "authorize_grant d s w4 = Some (ok, w')" by simp
          from Some aK have e4: "err w4 = err w3" and kp: "key_provisioned K dev KS"
            by (auto simp: key_provisioned_def)
          from Some cK secure have sK: "\<forall>u rep p c. EvEnsureKey u rep p c \<in> set KS \<longrightarrow>
                s = (if c then of_char (CHR ''1'') else of_char (CHR ''2''))"
            by auto
          from authorize_grant_sum [OF gr] obtain GS where
            tG: "trace w' = trace w4 @ GS" and pG: "\<forall>e\<in>set GS. grant_phase_event s e"
            and eG: "if ok then err w' = err w4 \<and>
                   EvWrite (Some (Attr ''authorized'')) [char_of s] (Returned 1) \<in> set GS
              else err w' \<noteq> None \<or>
                   EvWrite (Some (Attr ''authorized'')) [char_of s] (Returned 0) \<in> set GS"
            by blast
          have "run_summary K sec dev ok (err w) (err w') (U @ KS @ GS)"
          proof (rule run_summaryI [where U = U and KS = KS and GS = GS and sec' = s])
            show "U @ KS @ GS = U @ KS @ GS" by simp
            show "\<forall>e\<in>set U. pre_phase_event e" by (rule pU)
            show "\<forall>e\<in>set KS. key_phase_event e" by (rule pK)
            show "\<forall>e\<in>set GS. grant_phase_event s e" by (rule pG)
            show "KS = [] \<and> s = sec" if "sec \<noteq> of_char (CHR ''2'')"
              using that secure by simp
            show "key_provisioned K dev KS \<and>
              (\<forall>u rep p c. EvEnsureKey u rep p c \<in> set KS \<longrightarrow>
                 s = (if c then of_char (CHR ''1'') else of_char (CHR ''2'')))"
              using kp sK by simp
            show "\<not> ok \<and> KS = [] \<and> (\<forall>e\<in>set GS. \<not> is_grant_event e) \<and>
               (err w = None \<longrightarrow> (\<exists>x. err w' = Some x \<and> uid_verification_error x))"
              if "EvRead (Some (Attr ''unique_id'')) c (Returned n) bs \<in> set U" "bs \<noteq> uid dev"
              for c n bs
              using that allgood by blast
            show "if ok then err w' = err w \<and>
                   (1 \<le> sec \<longrightarrow>
                      EvWrite (Some (Attr ''authorized'')) [char_of s] (Returned 1) \<in> set GS)
              else err w' \<noteq> None \<or>
                   EvWrite (Some (Attr ''authorized'')) [char_of s] (Returned 0) \<in> set GS"
              using eG e4 e3 by (cases ok) auto
          qed
          with tU tK tG show ?thesis by simp
        qed
      qed
    qed
  qed
qed


lemma run_summaryD:
  assumes "run_summary K sec dev ok e0 e1 evs"
  obtains U KS GS sec' where "evs = U @ KS @ GS"
    and "\<forall>e\<in>set U. pre_phase_event e" and "\<forall>e\<in>set KS. key_phase_event e"
    and "\<forall>e\<in>set GS. grant_phase_event sec' e"
    and "sec \<noteq> of_char (CHR ''2'') \<Longrightarrow> KS = [] \<and> sec' = sec"
    and "sec = of_char (CHR ''2'') \<Longrightarrow> \<exists>e\<in>set GS. is_grant_event e \<Longrightarrow>
           key_provisioned K dev KS \<and>
           (\<forall>u rep p c. EvEnsureKey u rep p c \<in> set KS \<longrightarrow>
              sec' = (if c then of_char (CHR ''1'') else of_char (CHR ''2'')))"
    and "\<And>c n bs. EvRead (Some (Attr ''unique_id'')) c (Returned n) bs \<in> set U \<Longrightarrow> bs \<noteq> uid dev \<Longrightarrow>
           \<not> ok \<and> KS = [] \<and> (\<forall>e\<in>set GS. \<not> is_grant_event e) \<and>
           (e0 = None \<longrightarrow> (\<exists>x. e1 = Some x \<and> uid_verification_error x))"
    and "if ok then e1 = e0 \<and>
                    (1 \<le> sec \<longrightarrow>
                       EvWrite (Some (Attr ''authorized'')) [char_of sec'] (Returned 1) \<in> set GS)
         else e1 \<noteq> None \<or>
              EvWrite (Some (Attr ''authorized'')) [char_of sec'] (Returned 0) \<in> set GS"
proof -
  from assms obtain U KS GS sec' where
    h: "evs = U @ KS @ GS \<and>
        (\<forall>e\<in>set U. pre_phase_event e) \<and>
        (\<forall>e\<in>set KS. key_phase_event e) \<and>
        (\<forall>e\<in>set GS. grant_phase_event sec' e) \<and>
        (sec \<noteq> of_char (CHR ''2'') \<longrightarrow> KS = [] \<and> sec' = sec) \<and>
        (sec = of_char (CHR ''2'') \<and> (\<exists>e\<in>set GS. is_grant_event e) \<longrightarrow>
           key_provisioned K dev KS \<and>
           (\<forall>u rep p c. EvEnsureKey u rep p c \<in> set KS \<longrightarrow>
              sec' = (if c then of_char (CHR ''1'') else of_char (CHR ''2'')))) \<and>
        (\<forall>c n bs. EvRead (Some (Attr ''unique_id'')) c (Returned n) bs \<in> set U \<and> bs \<noteq> uid dev \<longrightarrow>
           \<not> ok \<and> KS = [] \<and> (\<forall>e\<in>set GS. \<not> is_grant_event e) \<and>
           (e0 = None \<longrightarrow> (\<exists>x. e1 = Some x \<and> uid_verification_error x))) \<and>
        (if ok then e1 = e0 \<and>
                    (1 \<le> sec \<longrightarrow>
                       EvWrite (Some (Attr ''authorized'')) [char_of sec'] (Returned 1) \<in> set GS)
         else e1 \<noteq> None \<or>
              EvWrite (Some (Attr ''authorized'')) [char_of sec'] (Returned 0) \<in> set GS)"
    unfolding run_summary_def by blast
  show thesis
  proof (rule that [of U KS GS sec'])
    show "evs = U @ KS @ GS" using h by (elim conjE)
    show "\<forall>e\<in>set U. pre_phase_event e" using h by (elim conjE)
    show "\<forall>e\<in>set KS. key_phase_event e" using h by (elim conjE)
    show "\<forall>e\<in>set GS. grant_phase_event sec' e" using h by (elim conjE)
    show "KS = [] \<and> sec' = sec" if "sec \<noteq> of_char (CHR ''2'')"
      using h that by (elim conjE) (erule (1) impE, assumption)
    show "key_provisioned K dev KS \<and>
           (\<forall>u rep p c. EvEnsureKey u rep p c \<in> set KS \<longrightarrow>
              sec' = (if c then of_char (CHR ''1'') else of_char (CHR ''2'')))"
      if "sec = of_char (CHR ''2'')" "\<exists>e\<in>set GS. is_grant_event e"
    proof -
      from h have "sec = of_char (CHR ''2'') \<and> (\<exists>e\<in>set GS. is_grant_event e) \<longrightarrow>
           key_provisioned K dev KS \<and>
           (\<forall>u rep p c. EvEnsureKey u rep p c \<in> set KS \<longrightarrow>
              sec' = (if c then of_char (CHR ''1'') else of_char (CHR ''2'')))"
        by (elim conjE)
      with that show ?thesis by (elim impE) (rule conjI, assumption+)
    qed
    show "\<not> ok \<and> KS = [] \<and> (\<forall>e\<in>set GS. \<not> is_grant_event e) \<and>
           (e0 = None \<longrightarrow> (\<exists>x. e1 = Some x \<and> uid_verification_error x))"
      if "EvRead (Some (Attr ''unique_id'')) c (Returned n) bs \<in> set U" "bs \<noteq> uid dev" for c n bs
    proof -
      from h have "\<forall>c n bs. EvRead (Some (Attr ''unique_id'')) c (Returned n) bs \<in> set U \<and> bs \<noteq> uid dev \<longrightarrow>
           \<not> ok \<and> KS = [] \<and> (\<forall>e\<in>set GS. \<not> is_grant_event e) \<and>
           (e0 = None \<longrightarrow> (\<exists>x. e1 = Some x \<and> uid_verification_error x))"
        by (elim conjE)
      then have "EvRead (Some (Attr ''unique_id'')) c (Returned n) bs \<in> set U \<and> bs \<noteq> uid dev \<longrightarrow>
           \<not> ok \<and> KS = [] \<and> (\<forall>e\<in>set GS. \<not> is_grant_event e) \<and>
           (e0 = None \<longrightarrow> (\<exists>x. e1 = Some x \<and> uid_verification_error x))"
        by (elim allE)
      with that show ?thesis by (elim impE) (rule conjI, assumption+)
    qed
    show "if ok then e1 = e0 \<and>
                    (1 \<le> sec \<longrightarrow>
                       EvWrite (Some (Attr ''authorized'')) [char_of sec'] (Returned 1) \<in> set GS)
         else e1 \<noteq> None \<or>
              EvWrite (Some (Attr ''authorized'')) [char_of sec'] (Returned 0) \<in> set GS"
      using h by (elim conjE)
  qed
qed

lemma run_summary_wrap:
  assumes s: "run_summary K sec dev ok e0 e1 evs"
    and P: "\<forall>e\<in>set P. pre_phase_event e \<and> \<not> is_read_of (Some (Attr ''unique_id'')) e"
  shows "run_summary K sec dev ok e0 e1 (P @ evs @ [EvClose d t r])"
proof (rule run_summaryD [OF s])
  fix U KS GS sec'
  assume h: "evs = U @ KS @ GS"
      "\<forall>e\<in>set U. pre_phase_event e" "\<forall>e\<in>set KS. key_phase_event e"
      "\<forall>e\<in>set GS. grant_phase_event sec' e"
      "sec \<noteq> of_char (CHR ''2'') \<Longrightarrow> KS = [] \<and> sec' = sec"
      "sec = of_char (CHR ''2'') \<Longrightarrow> \<exists>e\<in>set GS. is_grant_event e \<Longrightarrow>
           key_provisioned K dev KS \<and>
           (\<forall>u rep p c. EvEnsureKey u rep p c \<in> set KS \<longrightarrow>
              sec' = (if c then of_char (CHR ''1'') else of_char (CHR ''2'')))"
      "\<And>c n bs. EvRead (Some (Attr ''unique_id'')) c (Returned n) bs \<in> set U \<Longrightarrow> bs \<noteq> uid dev \<Longrightarrow>
           \<not> ok \<and> KS = [] \<and> (\<forall>e\<in>set GS. \<not> is_grant_event e) \<and>
           (e0 = None \<longrightarrow> (\<exists>x. e1 = Some x \<and> uid_verification_error x))"
      "if ok then e1 = e0 \<and>
                    (1 \<le> sec \<longrightarrow>
                       EvWrite (Some (Attr ''authorized'')) [char_of sec'] (Returned 1) \<in> set GS)
         else e1 \<noteq> None \<or>
              EvWrite (Some (Attr ''authorized'')) [char_of sec'] (Returned 0) \<in> set GS"
  let ?GS = "GS @ [EvClose d t r]"
  show "run_summary K sec dev ok e0 e1 (P @ evs @ [EvClose d t r])"
  proof (rule run_summaryI [where U = "P @ U" and KS = KS and GS = ?GS and sec' = sec'])
    show "P @ evs @ [EvClose d t r] = (P @ U) @ KS @ ?GS" using h(1) by simp
    show "\<forall>e\<in>set (P @ U). pre_phase_event e" using h(2) P by auto
    show "\<forall>e\<in>set KS. key_phase_event e" by (rule h(3))
    show "\<forall>e\<in>set ?GS. grant_phase_event sec' e" using h(4) by auto
    show "KS = [] \<and> sec' = sec" if "sec \<noteq> of_char (CHR ''2'')" using that by (rule h(5))
    show "key_provisioned K dev KS \<and>
           (\<forall>u rep p c. EvEnsureKey u rep p c \<in> set KS \<longrightarrow>
              sec' = (if c then of_char (CHR ''1'') else of_char (CHR ''2'')))"
      if "sec = of_char (CHR ''2'')" "\<exists>e\<in>set ?GS. is_grant_event e"
    proof -
      from that(2) have "\<exists>e\<in>set GS. is_grant_event e" by auto
      with that(1) show ?thesis by (rule h(6))
    qed
    show "\<not> ok \<and> KS = [] \<and> (\<forall>e\<in>set ?GS. \<not> is_grant_event e) \<and>
           (e0 = None \<longrightarrow> (\<exists>x. e1 = Some x \<and> uid_verification_error x))"
      if "EvRead (Some (Attr ''unique_id'')) c (Returned n) bs \<in> set (P @ U)" "bs \<noteq> uid dev" for c n bs
    proof -
      from that(1) P have "EvRead (Some (Attr ''unique_id'')) c (Returned n) bs \<in> set U"
        by auto
      from h(7) [OF this that(2)] show ?thesis by auto
    qed
    show "if ok then e1 = e0 \<and>
                    (1 \<le> sec \<longrightarrow>
                       EvWrite (Some (Attr ''authorized'')) [char_of sec'] (Returned 1) \<in> set ?GS)
         else e1 \<noteq> None \<or>
              EvWrite (Some (Attr ''authorized'')) [char_of sec'] (Returned 0) \<in> set ?GS"
      using h(8) by (cases ok) auto
  qed
qed

lemma tb_device_authorize_summary:
  assumes run: "tb_device_authorize K mgr dev w = Some ((ok, dev'), w')"
  shows "dev' = dev \<and>
         run_summary K (tb_manager_get_security_level mgr) dev ok (err w) (err w') (new_events w w')"
proof -
  let ?sec = "tb_manager_get_security_level mgr"
  let ?w0 = "w\<lparr>trace := trace w @ [EvAuthorize (uid dev)]\<rparr>"
  show ?thesis
  proof (cases "?sec < 1")
    case True
    with run have r: "ok" "dev' = dev" "w' = ?w0"
      by (auto simp: tb_device_authorize_def Let_def)
    have "run_summary K ?sec dev ok (err w) (err w') [EvAuthorize (uid dev)]"
      by (rule run_summaryI [where U = "[EvAuthorize (uid dev)]" and KS = "[]" and GS = "[]"
            and sec' = ?sec])
         (use r True in \<open>auto simp: of_char_def\<close>)
    moreover have "new_events w w' = [EvAuthorize (uid dev)]"
      using r by (simp add: new_events_def)
    ultimately show ?thesis using r by simp
  next
    case False
    with run obtain d w1 where
      op: "sys_open (Dir (sysfs dev)) O_RDONLY ?w0 = Some (d, w1)"
      and r1: "(if d < 0
           then Some ((False, dev),
                      g_set_error Could_not_open_directory (g_io_error_from_errno (errno w1)) w1)
           else do {
             (ok, w2) \<leftarrow> authorize_in_dir K ?sec dev d w1;
             (r, w3) \<leftarrow> sys_close d w2;
             Some ((ok, dev), w3)
           }) = Some ((ok, dev'), w')"
      by (auto simp: tb_device_authorize_def Let_def split: bind_splits)
    let ?od = "EvOpen (Dir (sysfs dev)) O_RDONLY (call_result d w1)"
    from sys_open_fp [OF op] have
      t1: "trace w1 = trace w @ [EvAuthorize (uid dev), ?od]" and e1: "err w1 = err w"
      by simp_all
    show ?thesis
    proof (cases "d < 0")
      case True
      with r1 have r: "\<not> ok" "dev' = dev"
        "w' = g_set_error Could_not_open_directory (g_io_error_from_errno (errno w1)) w1"
        by auto
      have "run_summary K ?sec dev ok (err w) (err w') [EvAuthorize (uid dev), ?od]"
        by (rule run_summaryI [where U = "[EvAuthorize (uid dev), ?od]" and KS = "[]" and GS = "[]"
              and sec' = ?sec])
           (use r in auto)
      moreover have "new_events w w' = [EvAuthorize (uid dev), ?od]"
        using r t1 by (simp add: new_events_def)
      ultimately show ?thesis using r by simp
    next
      case nonneg: False
      with r1 obtain w2 r where
        ind: "authorize_in_dir K ?sec dev d w1 = Some (ok, w2)"
        and cl: "sys_close d w2 = Some (r, w')" and dev: "dev' = dev"
        by (auto split: bind_splits)
      from authorize_in_dir_summary [OF ind] obtain evs where
        t2: "trace w2 = trace w1 @ evs"
        and s2: "run_summary K ?sec dev ok (err w1) (err w2) evs"
        by blast
      from sys_close_fp [OF cl] have
        t3: "trace w' = trace w2 @ [EvClose d (fds w2 d) (call_result r w')]"
        and e3: "err w' = err w2" by simp_all
      have "run_summary K ?sec dev ok (err w1) (err w2)
              ([EvAuthorize (uid dev), ?od] @ evs @ [EvClose d (fds w2 d) (call_result r w')])"
        by (rule run_summary_wrap [OF s2]) simp
      moreover have "new_events w w' =
          [EvAuthorize (uid dev), ?od] @ evs @ [EvClose d (fds w2 d) (call_result r w')]"
        using t1 t2 t3 by (simp add: new_events_def)
      ultimately show ?thesis using dev e1 e3 by simp
    qed
  qed
qed


lemma pre_phase_facts:
  "pre_phase_event e \<Longrightarrow>
     \<not> is_write e \<and> \<not> opens_for_writing e \<and> \<not> is_grant_event e \<and> (\<forall>u rep p c. e \<noteq> EvEnsureKey u rep p c)"
  by (induction e rule: pre_phase_event.induct) auto

lemma key_phase_facts:
  "key_phase_event e \<Longrightarrow>
     \<not> is_grant_event e \<and> \<not> is_read_of (Some (Attr ''unique_id'')) e \<and>
     (\<forall>bs r. e \<noteq> EvWrite (Some (Attr ''authorized'')) bs r)"
  by (induction e rule: key_phase_event.induct) auto

lemma grant_phase_facts:
  "grant_phase_event s e \<Longrightarrow>
     \<not> is_read_of (Some (Attr ''unique_id'')) e \<and> (\<forall>u rep p c. e \<noteq> EvEnsureKey u rep p c) \<and>
     (\<forall>t bs r. e = EvWrite t bs r \<longrightarrow> bs = [char_of s] \<and> is_grant_event e) \<and>
     (\<not> is_grant_event e \<longrightarrow> \<not> is_write e \<and> \<not> opens_for_writing e)"
  by (induction s e rule: grant_phase_event.induct) auto

lemma prefix_before_first:
  "xs @ ys = before @ g # after \<Longrightarrow> g \<notin> set xs \<Longrightarrow> \<exists>zs. before = xs @ zs"
proof (induction xs arbitrary: before)
  case Nil
  then show ?case by simp
next
  case (Cons x xs)
  then show ?case by (cases before) auto
qed

lemma key_provisioned_mono:
  "key_provisioned K dev xs \<Longrightarrow> set xs \<subseteq> set ys \<Longrightarrow> key_provisioned K dev ys"
  unfolding key_provisioned_def by blast

subsection \<open>The first failing step\<close>

lemma first_failure_append:
  "first_failure dev en (xs @ ys) =
     (case first_failure dev en xs of
        None \<Rightarrow> first_failure dev (foldl errno_after en xs) ys
      | Some r \<Rightarrow> Some r)"
  by (induction xs arbitrary: en) (simp_all split: option.splits)

lemma accountedI:
  assumes "trace w' = trace w @ evs" "errno w' = foldl errno_after (errno w) evs"
    "good \<longleftrightarrow> first_failure dev (errno w) evs = None"
    "good \<Longrightarrow> err w' = err w"
    "\<And>en e. \<not> good \<Longrightarrow> err w = None \<Longrightarrow> first_failure dev (errno w) evs = Some (en, e) \<Longrightarrow>
       (case step_error en e of
          Some x \<Rightarrow> err w' = Some x
        | None \<Rightarrow> \<exists>c. e = EvWrite (Some (Attr ''authorized'')) [c] (Returned 0))"
  shows "accounted dev good w w'"
  unfolding accounted_def using assms
  by (intro exI [of _ evs]) (cases good; simp)

lemma accounted_single:
  assumes "trace w' = trace w @ [e]" "errno w' = errno_after (errno w) e"
    "good \<longleftrightarrow> \<not> failing_step dev e"
    "good \<Longrightarrow> err w' = err w"
    "\<not> good \<Longrightarrow> err w = None \<Longrightarrow>
       (case step_error (errno w) e of
          Some x \<Rightarrow> err w' = Some x
        | None \<Rightarrow> \<exists>c. e = EvWrite (Some (Attr ''authorized'')) [c] (Returned 0))"
  shows "accounted dev good w w'"
  using assms by (intro accountedI [where evs = "[e]"]) (auto split: if_splits)

lemma accounted_then:
  assumes a: "accounted dev True w w1" and b: "accounted dev g w1 w2"
  shows "accounted dev g w w2"
proof -
  from a obtain xs where
    x: "trace w1 = trace w @ xs" "errno w1 = foldl errno_after (errno w) xs"
      "first_failure dev (errno w) xs = None" "err w1 = err w"
    unfolding accounted_def by auto
  from b obtain ys where
    y: "trace w2 = trace w1 @ ys" "errno w2 = foldl errno_after (errno w1) ys"
      "g \<longleftrightarrow> first_failure dev (errno w1) ys = None" "g \<longrightarrow> err w2 = err w1"
      "err w1 = None \<longrightarrow>
           (\<forall>en e. first_failure dev (errno w1) ys = Some (en, e) \<longrightarrow>
              (case step_error en e of
                 Some x \<Rightarrow> err w2 = Some x
               | None \<Rightarrow> \<exists>c. e = EvWrite (Some (Attr ''authorized'')) [c] (Returned 0)))"
    unfolding accounted_def by auto
  show ?thesis
    by (rule accountedI [where evs = "xs @ ys"])
       (use x y in \<open>auto simp: first_failure_append\<close>)
qed

lemma accounted_quiet:
  assumes a: "accounted dev g w w1"
    and t: "trace w2 = trace w1 @ [e]" and n: "errno w2 = errno_after (errno w1) e"
    and r: "err w2 = err w1" and nf: "g \<Longrightarrow> \<not> failing_step dev e"
  shows "accounted dev g w w2"
proof -
  from a obtain xs where
    x: "trace w1 = trace w @ xs" "errno w1 = foldl errno_after (errno w) xs"
      "g \<longleftrightarrow> first_failure dev (errno w) xs = None" "g \<longrightarrow> err w1 = err w"
      "err w = None \<longrightarrow>
           (\<forall>en e. first_failure dev (errno w) xs = Some (en, e) \<longrightarrow>
              (case step_error en e of
                 Some x \<Rightarrow> err w1 = Some x
               | None \<Rightarrow> \<exists>c. e = EvWrite (Some (Attr ''authorized'')) [c] (Returned 0)))"
    unfolding accounted_def by auto
  show ?thesis
    by (rule accountedI [where evs = "xs @ [e]"])
       (use x t n r nf in \<open>auto simp: first_failure_append split: option.splits\<close>)
qed


lemma sys_open_errno:
  "sys_open t fl w = Some (r, w') \<Longrightarrow> 0 \<le> r \<Longrightarrow> errno w' = errno w"
  by (auto simp: sys_open_def answered_def split: list.splits reply.splits if_splits)

lemma sys_read_errno:
  "sys_read fd cnt w = Some ((n, bs), w') \<Longrightarrow> 0 \<le> n \<Longrightarrow> errno w' = errno w"
  by (auto simp: sys_read_def answered_def Let_def split: list.splits reply.splits if_splits)

lemma sys_write_errno:
  "sys_write fd bs w = Some (k, w') \<Longrightarrow> 0 \<le> k \<Longrightarrow> errno w' = errno w"
  by (auto simp: sys_write_def answered_def split: list.splits reply.splits if_splits)

lemma sys_close_errno:
  "sys_close fd w = Some (r, w') \<Longrightarrow> 0 \<le> r \<Longrightarrow> errno w' = errno w"
  by (auto simp: sys_close_def answered_def split: list.splits reply.splits if_splits)

lemma accounted_ok_step:
  assumes "trace w' = trace w @ [e]" "errno w' = errno_after (errno w) e" "err w' = err w"
    "\<not> failing_step dev e"
  shows "accounted dev True w w'"
  using assms by (intro accounted_single [where e = e]) simp_all

lemma accounted_fail_step:
  assumes "trace w' = trace w @ [e]" "errno w' = errno_after (errno w) e" "failing_step dev e"
    "err w = None \<Longrightarrow>
       (case step_error (errno w) e of
          Some x \<Rightarrow> err w' = Some x
        | None \<Rightarrow> \<exists>c. e = EvWrite (Some (Attr ''authorized'')) [c] (Returned 0))"
  shows "accounted dev False w w'"
  using assms by (intro accounted_single [where e = e]) simp_all

lemma tb_openat_acc:
  assumes "tb_openat d p fl w = Some (fd, w')"
  shows "accounted dev (0 \<le> fd) w w'"
proof -
  from assms obtain w1 where
    op: "sys_open (Attr p) fl w = Some (fd, w1)"
    and w': "w' = (if fd < 0
                   then g_set_error (Could_not_open_file p) (g_io_error_from_errno (errno w1)) w1
                   else w1)"
    by (auto simp: tb_openat_def split: bind_splits if_splits)
  note fp = sys_open_fp [OF op]
  show ?thesis
  proof (cases "fd < 0")
    case True
    with fp have fd: "fd = - 1" by simp
    have "accounted dev False w w'"
      by (rule accounted_fail_step [where e = "EvOpen (Attr p) fl (Failed (errno w1))"])
         (use fp w' fd in simp_all)
    with fd show ?thesis by simp
  next
    case False
    then have nn: "0 \<le> fd" by simp
    note en = sys_open_errno [OF op nn]
    have "accounted dev True w w'"
      by (rule accounted_ok_step [where e = "EvOpen (Attr p) fl (Returned fd)"])
         (use fp en w' nn in simp_all)
    with nn show ?thesis by simp
  qed
qed

lemma tb_close_acc:
  assumes "tb_close fd w = Some (ok, w')" and "fds w fd = Some (Attr a)" and "a \<noteq> ''unique_id''"
  shows "accounted dev ok w w'"
proof -
  from assms(1) obtain r w1 where
    cl: "sys_close fd w = Some (r, w1)"
    and ok: "ok \<longleftrightarrow> r = 0"
    and w': "w' = (if r = 0 then w1
                   else g_set_error Could_not_close_file (g_io_error_from_errno (errno w1)) w1)"
    by (auto simp: tb_close_def split: bind_splits if_splits)
  note fp = sys_close_fp [OF cl]
  show ?thesis
  proof (cases "r = 0")
    case True
    note en = sys_close_errno [OF cl]
    have "accounted dev True w w'"
      by (rule accounted_ok_step [where e = "EvClose fd (Some (Attr a)) (Returned 0)"])
         (use fp en w' True assms(2,3) in simp_all)
    with ok True show ?thesis by simp
  next
    case False
    with fp have r: "r = - 1" by simp
    have "accounted dev False w w'"
      by (rule accounted_fail_step [where e = "EvClose fd (Some (Attr a)) (Failed (errno w1))"])
         (use fp w' r assms(2,3) in simp_all)
    with ok r show ?thesis by simp
  qed
qed

lemma tb_verify_uid_acc:
  assumes "tb_verify_uid fd u w = Some (ok, w')" and "fds w fd = Some (Attr a)" and "u = uid dev"
  shows "accounted dev ok w w'"
  using assms
proof (induction fd u w arbitrary: ok w' rule: tb_verify_uid.induct)
  case (1 fd u w)
  let ?T = "Some (Attr a)" and ?len = "length u"
  note T = "1.prems"(2) and u = "1.prems"(3)
  from "1.prems"(1) show ?case
  proof (cases rule: tb_verify_uid_cases)
    case (retry w1)
    note fp = sys_read_fp [OF retry(1)]
    have a1: "accounted dev True w w1"
      by (rule accounted_ok_step [where e = "EvRead ?T ?len (Failed EINTR) []"])
         (use fp retry(2) T in simp_all)
    from fp T have f1: "fds w1 fd = Some (Attr a)" by simp
    from "1.IH" [OF refl retry(1) refl refl _ retry(2,3) f1 u]
    have "accounted dev ok w1 w'" by simp
    with a1 show ?thesis by (rule accounted_then)
  next
    case (failed w1)
    note fp = sys_read_fp [OF failed(1)]
    have "accounted dev False w w'"
      by (rule accounted_fail_step [where e = "EvRead ?T ?len (Failed (errno w1)) []"])
         (use fp failed(2,4) T in simp_all)
    with failed(3) show ?thesis by simp
  next
    case (short buffer w1)
    note fp = sys_read_fp [OF short(1)]
    from short(1) have en: "errno w1 = errno w" by (rule sys_read_errno) simp
    have "accounted dev False w w'"
      by (rule accounted_fail_step [where e = "EvRead ?T ?len (Returned (int (length buffer))) buffer"])
         (use fp en short(2,4) T in simp_all)
    with short(3) show ?thesis by simp
  next
    case (differs buffer w1)
    note fp = sys_read_fp [OF differs(1)]
    from differs(1) have en: "errno w1 = errno w" by (rule sys_read_errno) simp
    have "accounted dev False w w'"
      by (rule accounted_fail_step [where e = "EvRead ?T ?len (Returned (int (length u))) buffer"])
         (use fp en differs(3,5) T u in simp_all)
    with differs(4) show ?thesis by simp
  next
    case equal
    note fp = sys_read_fp [OF equal(1)]
    from equal(1) have en: "errno w' = errno w" by (rule sys_read_errno) simp
    have "accounted dev True w w'"
      by (rule accounted_ok_step [where e = "EvRead ?T ?len (Returned (int (length u))) u"])
         (use fp en T u in simp_all)
    with equal(2) show ?thesis by simp
  qed
qed

lemma tb_write_char_acc:
  assumes "tb_write_char fd c w = Some (ok, w')" and "fds w fd = Some (Attr a)"
    and "a = ''authorized''"
  shows "accounted dev ok w w'"
  using assms
proof (induction fd c w arbitrary: ok w' rule: tb_write_char.induct)
  case (1 fd c w)
  let ?T = "Some (Attr a)"
  note T = "1.prems"(2) and a = "1.prems"(3)
  from "1.prems"(1) show ?case
  proof (cases rule: tb_write_char_cases)
    case (retry w1)
    note fp = sys_write_fp [OF retry(1)]
    have a1: "accounted dev True w w1"
      by (rule accounted_ok_step [where e = "EvWrite ?T [c] (Failed EINTR)"])
         (use fp retry(2) T in simp_all)
    from fp T have f1: "fds w1 fd = Some (Attr a)" by simp
    from "1.IH" [OF retry(1) refl _ retry(2,3) f1 a]
    have "accounted dev ok w1 w'" by simp
    with a1 show ?thesis by (rule accounted_then)
  next
    case (failed w1)
    note fp = sys_write_fp [OF failed(1)]
    have "accounted dev False w w'"
      by (rule accounted_fail_step [where e = "EvWrite ?T [c] (Failed (errno w1))"])
         (use fp failed(2,4) T a in simp_all)
    with failed(3) show ?thesis by simp
  next
    case (wrote k)
    note fp = sys_write_fp [OF wrote(1)]
    note en = sys_write_errno [OF wrote(1,2)]
    from fp wrote(2) have k: "k = 0 \<or> k = 1" by auto
    show ?thesis
    proof (cases "k = 1")
      case True
      have "accounted dev True w w'"
        by (rule accounted_ok_step [where e = "EvWrite ?T [c] (Returned 1)"])
           (use fp en True T in simp_all)
      with wrote(3) True show ?thesis by simp
    next
      case False
      with k have k0: "k = 0" by simp
      have "accounted dev False w w'"
        by (rule accounted_fail_step [where e = "EvWrite ?T [c] (Returned 0)"])
           (use fp en k0 T a in simp_all)
      with wrote(3) k0 show ?thesis by simp
    qed
  qed
qed


lemma copy_key_write_acc:
  assumes "copy_key_write to buffer w = Some (k, w')" and "fds w to = Some (Attr ''key'')"
  shows "accounted dev (k = int (length buffer)) w
           (if k = int (length buffer) then w'
            else g_set_error Io_error_while_writing_key_data (g_io_error_from_errno (errno w')) w')"
  using assms
proof (induction to buffer w arbitrary: k w' rule: copy_key_write.induct)
  case (1 to buffer w)
  let ?T = "Some (Attr ''key'')"
  let ?W = "g_set_error Io_error_while_writing_key_data (g_io_error_from_errno (errno w')) w'"
  note T = "1.prems"(2)
  from "1.prems"(1) show ?case
  proof (cases rule: copy_key_write_cases)
    case (retry w1)
    note fp = sys_write_fp [OF retry(1)]
    have a1: "accounted dev True w w1"
      by (rule accounted_ok_step [where e = "EvWrite ?T buffer (Failed EINTR)"])
         (use fp retry(2) T in simp_all)
    from fp T have f1: "fds w1 to = Some (Attr ''key'')" by simp
    from "1.IH" [OF retry(1) refl _ retry(3) f1] retry(2)
    have "accounted dev (k = int (length buffer)) w1 (if k = int (length buffer) then w' else ?W)"
      by simp
    with a1 show ?thesis by (rule accounted_then)
  next
    case failed
    note fp = sys_write_fp [OF failed(1)]
    have "accounted dev False w ?W"
      by (rule accounted_fail_step [where e = "EvWrite ?T buffer (Failed (errno w'))"])
         (use fp failed(2) T in simp_all)
    with failed(3) show ?thesis by simp
  next
    case wrote
    note fp = sys_write_fp [OF wrote(1)]
    note en = sys_write_errno [OF wrote(1,2)]
    show ?thesis
    proof (cases "k = int (length buffer)")
      case True
      have "accounted dev True w w'"
        by (rule accounted_ok_step [where e = "EvWrite ?T buffer (Returned k)"])
           (use fp en True wrote(2) T in simp_all)
      with True show ?thesis by simp
    next
      case False
      have "accounted dev False w ?W"
        by (rule accounted_fail_step [where e = "EvWrite ?T buffer (Returned k)"])
           (use fp en False wrote(2) T in simp_all)
      with False show ?thesis by simp
    qed
  qed
qed

lemma tb_read_all_loop_acc:
  assumes "tb_read_all_loop fd got nread nbyte w = Some ((n, got'), w')"
    and "fds w fd = Some (File p)" and "0 \<le> nread"
  shows "accounted dev (n = nread + int nbyte) w
           (if 0 \<le> n \<and> n \<noteq> nread + int nbyte
            then g_set_error Could_not_read_entire_key_from_disk G_IO_ERROR_FAILED w' else w')"
  using assms
proof (induction fd got nread nbyte w arbitrary: n got' w' rule: tb_read_all_loop.induct)
  case (1 fd got nread nbyte w)
  let ?T = "Some (File p)"
  let ?W = "g_set_error Could_not_read_entire_key_from_disk G_IO_ERROR_FAILED w'"
  note T = "1.prems"(2) and nn = "1.prems"(3)
  from "1.prems"(1) show ?case
  proof (cases rule: tb_read_all_loop_cases)
    case (eintr_again w1)
    note fp = sys_read_fp [OF eintr_again(1)]
    have a1: "accounted dev True w w1"
      by (rule accounted_ok_step [where e = "EvRead ?T nbyte (Failed EINTR) []"])
         (use fp eintr_again(2) T in simp_all)
    from fp T have f1: "fds w1 fd = Some (File p)" by simp
    from "1.IH"(1) [OF eintr_again(1) refl refl _ refl eintr_again(2,3,4) f1 nn]
    have "accounted dev (n = nread + int nbyte) w1
         (if 0 \<le> n \<and> n \<noteq> nread + int nbyte then ?W else w')"
      by simp
    with a1 show ?thesis by (rule accounted_then)
  next
    case eintr_stop
    note fp = sys_read_fp [OF eintr_stop(1)]
    have "accounted dev True w w'"
      by (rule accounted_ok_step [where e = "EvRead ?T nbyte (Failed EINTR) []"])
         (use fp eintr_stop(2) T in simp_all)
    with eintr_stop(3,4) show ?thesis by simp
  next
    case (failed w1)
    note fp = sys_read_fp [OF failed(1)]
    have "accounted dev False w w'"
      by (rule accounted_fail_step [where e = "EvRead ?T nbyte (Failed (errno w1)) []"])
         (use fp failed(2,6) T in simp_all)
    with failed(3,4) nn show ?thesis by simp
  next
    case eof
    note fp = sys_read_fp [OF eof(1)]
    from eof(1) have en: "errno w' = errno w" by (rule sys_read_errno) simp
    show ?thesis
    proof (cases "nbyte = 0")
      case True
      have "accounted dev True w w'"
        by (rule accounted_ok_step [where e = "EvRead ?T nbyte (Returned 0) []"])
           (use fp en True T in simp_all)
      with eof(2) True show ?thesis by simp
    next
      case False
      have "accounted dev False w ?W"
        by (rule accounted_fail_step [where e = "EvRead ?T nbyte (Returned 0) []"])
           (use fp en False T in simp_all)
      with eof(2) False nn show ?thesis by simp
    qed
  next
    case (more chunk w1)
    note fp = sys_read_fp [OF more(1)]
    from more(1) have en: "errno w1 = errno w" by (rule sys_read_errno) simp
    have a1: "accounted dev True w w1"
      by (rule accounted_ok_step [where e = "EvRead ?T nbyte (Returned (int (length chunk))) chunk"])
         (use fp en more(2) T in simp_all)
    from fp T have f1: "fds w1 fd = Some (File p)" by simp
    from nn have nn': "0 \<le> nread + int (length chunk)" by simp
    have rec: "tb_read_all_loop fd (got @ chunk) (nread + int (length chunk))
                 (nbyte - nat (int (length chunk))) w1 = Some ((n, got'), w')"
      using more(4) by simp
    from "1.IH"(2) [OF more(1) refl refl _ _ _ rec f1 nn'] more(2,3)
    have "accounted dev (n = nread + int nbyte) w1
         (if 0 \<le> n \<and> n \<noteq> nread + int nbyte then ?W else w')"
      by simp
    with a1 show ?thesis by (rule accounted_then)
  next
    case (full chunk)
    note fp = sys_read_fp [OF full(1)]
    from full(1) have en: "errno w' = errno w" by (rule sys_read_errno) simp
    have "accounted dev True w w'"
      by (rule accounted_ok_step [where e = "EvRead ?T nbyte (Returned (int (length chunk))) chunk"])
         (use fp en full(2) T in simp_all)
    with full(3,4) show ?thesis by simp
  qed
qed


lemma copy_key_acc:
  assumes run: "copy_key K path to w = Some (ok, w')" and T: "fds w to = Some (Attr ''key'')"
  shows "accounted dev ok w w'"
proof -
  from run obtain "from" w1 where
    op: "sys_open (File path) O_RDONLY w = Some (from, w1)"
    and r1: "(if from < 0
       then Some (False, g_set_error Could_not_open_key_file (g_io_error_from_errno (errno w1)) w1)
       else do {
         ((n, got), w2) \<leftarrow> tb_read_all from K w1;
         let buffer = got @ replicate (K - length got) (CHR 0x00) in
         if n < 0 then Some (False, w2)
         else if n \<noteq> int K
         then Some (False, g_set_error Could_not_read_entire_key_from_disk G_IO_ERROR_FAILED w2)
         else do {
           (k, w3) \<leftarrow> copy_key_write to (take (nat n) buffer) w2;
           if k \<noteq> n
           then Some (False, g_set_error Io_error_while_writing_key_data
                               (g_io_error_from_errno (errno w3)) w3)
           else Some (True, w3)
         }
       }) = Some (ok, w')"
    by (auto simp: copy_key_def split: bind_splits)
  note fp = sys_open_fp [OF op]
  show ?thesis
  proof (cases "from < 0")
    case True
    with fp have fr: "from = - 1" by simp
    from r1 True have r: "\<not> ok"
      "w' = g_set_error Could_not_open_key_file (g_io_error_from_errno (errno w1)) w1"
      by auto
    have "accounted dev False w w'"
      by (rule accounted_fail_step [where e = "EvOpen (File path) O_RDONLY (Failed (errno w1))"])
         (use fp fr r(2) in simp_all)
    with r(1) show ?thesis by simp
  next
    case False
    then have nn: "0 \<le> from" by simp
    note en = sys_open_errno [OF op nn]
    from fp nn have f1: "fds w1 = (fds w)(from \<mapsto> File path)" "fds w from = None" by simp_all
    have a1: "accounted dev True w w1"
      by (rule accounted_ok_step [where e = "EvOpen (File path) O_RDONLY (Returned from)"])
         (use fp en nn in simp_all)
    from f1 T have ft: "from \<noteq> to" by auto
    from f1 have ff: "fds w1 from = Some (File path)" by simp
    from f1 ft T have t1: "fds w1 to = Some (Attr ''key'')" by simp
    from r1 False obtain n got w2 where
      ra: "tb_read_all_loop from [] 0 K w1 = Some ((n, got), w2)"
      and r2: "(let buffer = got @ replicate (K - length got) (CHR 0x00) in
         if n < 0 then Some (False, w2)
         else if n \<noteq> int K
         then Some (False, g_set_error Could_not_read_entire_key_from_disk G_IO_ERROR_FAILED w2)
         else do {
           (k, w3) \<leftarrow> copy_key_write to (take (nat n) buffer) w2;
           if k \<noteq> n
           then Some (False, g_set_error Io_error_while_writing_key_data
                               (g_io_error_from_errno (errno w3)) w3)
           else Some (True, w3)
         }) = Some (ok, w')"
      by (auto simp: tb_read_all_def split: bind_splits)
    from tb_read_all_loop_acc [OF ra ff, of dev]
    have a2: "accounted dev (n = int K) w1
           (if 0 \<le> n \<and> n \<noteq> int K
            then g_set_error Could_not_read_entire_key_from_disk G_IO_ERROR_FAILED w2 else w2)"
      by simp
    from tb_read_all_loop_fp [OF ra] have f2: "fds w2 = fds w1" by auto
    show ?thesis
    proof (cases "n = int K")
      case ne: False
      from r2 ne have r: "\<not> ok"
        "w' = (if 0 \<le> n \<and> n \<noteq> int K
            then g_set_error Could_not_read_entire_key_from_disk G_IO_ERROR_FAILED w2 else w2)"
        by (auto simp: Let_def split: if_splits)
      from a2 ne r(2) have "accounted dev False w1 w'" by simp
      with a1 have "accounted dev False w w'" by (rule accounted_then)
      with r(1) show ?thesis by simp
    next
      case eq: True
      with a2 have a2': "accounted dev True w1 w2" by simp
      let ?buf = "take (nat n) (got @ replicate (K - length got) (CHR 0x00))"
      have len: "int (length ?buf) = n" using eq by simp
      from r2 eq obtain k w3 where
        cw: "copy_key_write to ?buf w2 = Some (k, w3)"
        and r3: "(if k \<noteq> n
             then Some (False, g_set_error Io_error_while_writing_key_data
                                 (g_io_error_from_errno (errno w3)) w3)
             else Some (True, w3)) = Some (ok, w')"
        by (auto simp: Let_def split: bind_splits)
      from f2 t1 have t2: "fds w2 to = Some (Attr ''key'')" by simp
      from copy_key_write_acc [OF cw t2, of dev]
      have a3: "accounted dev (k = n) w2
           (if k = n then w3
            else g_set_error Io_error_while_writing_key_data (g_io_error_from_errno (errno w3)) w3)"
        by (simp only: len)
      from r3 have r: "ok \<longleftrightarrow> k = n"
        "w' = (if k = n then w3
            else g_set_error Io_error_while_writing_key_data (g_io_error_from_errno (errno w3)) w3)"
        by (auto split: if_splits)
      from a3 r have "accounted dev ok w2 w'" by simp
      with a2' have "accounted dev ok w1 w'" by (rule accounted_then)
      with a1 show ?thesis by (rule accounted_then)
    qed
  qed
qed


lemma failing_close_iff:
  "failing_step dev (EvClose fd T r) \<longleftrightarrow>
     (\<exists>a. T = Some (Attr a) \<and> a \<noteq> ''unique_id'') \<and> \<not> returned r"
  by (cases "(dev, EvClose fd T r)" rule: failing_step.cases) auto

lemma sys_close_quiet:
  assumes cl: "sys_close fd w1 = Some (r, w2)" and a: "accounted dev g w w1"
    and ok: "g \<Longrightarrow> \<forall>a. fds w1 fd = Some (Attr a) \<longrightarrow> a = ''unique_id''"
  shows "accounted dev g w w2"
proof -
  note fp = sys_close_fp [OF cl]
  show ?thesis
  proof (cases "r = 0")
    case True
    note en = sys_close_errno [OF cl]
    show ?thesis
      by (rule accounted_quiet [OF a, where e = "EvClose fd (fds w1 fd) (Returned 0)"])
         (use fp en True in \<open>simp_all add: failing_close_iff\<close>)
  next
    case False
    with fp have r: "r = - 1" by simp
    show ?thesis
      by (rule accounted_quiet [OF a, where e = "EvClose fd (fds w1 fd) (Failed (errno w2))"])
         (use fp r ok in \<open>auto simp: failing_close_iff\<close>)
  qed
qed

lemma tb_manager_ensure_key_acc:
  assumes "tb_manager_ensure_key dev rep w = Some ((key, c), w')"
  shows "accounted dev (key \<noteq> None) w w'"
proof (cases key)
  case None
  with assms have w': "trace w' = trace w @ [EvEnsureKey (uid dev) rep None False]"
    "errno w' = errno w"
    "err w' = (if err w = None then Some (GError Ensure_key_failed G_IO_ERROR_FAILED) else err w)"
    by (auto simp: tb_manager_ensure_key_def answered_def
             split: list.splits reply.splits option.splits)
  have "accounted dev False w w'"
    by (rule accounted_fail_step [where e = "EvEnsureKey (uid dev) rep None False"])
       (use w' in simp_all)
  with None show ?thesis by simp
next
  case (Some p)
  with assms have w': "trace w' = trace w @ [EvEnsureKey (uid dev) rep (Some p) c]"
    "errno w' = errno w" "err w' = err w"
    by (auto simp: tb_manager_ensure_key_def answered_def
             split: list.splits reply.splits option.splits)
  have "accounted dev True w w'"
    by (rule accounted_ok_step [where e = "EvEnsureKey (uid dev) rep (Some p) c"])
       (use w' in simp_all)
  with Some show ?thesis by simp
qed

lemma authorize_grant_acc:
  assumes run: "authorize_grant d sec w = Some (ok, w')"
  shows "accounted dev ok w w'"
proof -
  from run obtain fd w1 where
    op: "tb_openat d ''authorized'' O_WRONLY w = Some (fd, w1)"
    and r1: "(if fd < 0 then Some (False, w1)
       else do {
         (ok, w2) \<leftarrow> tb_write_char fd (char_of sec) w1;
         if \<not> ok then do { (r, w3) \<leftarrow> sys_close fd w2; Some (False, w3) }
         else tb_close fd w2
       }) = Some (ok, w')"
    by (auto simp: authorize_grant_def split: bind_splits)
  note a1 = tb_openat_acc [OF op, of dev]
  show ?thesis
  proof (cases "fd < 0")
    case True
    with r1 have "\<not> ok" "w' = w1" by auto
    with a1 True show ?thesis by simp
  next
    case False
    with a1 have a1': "accounted dev True w w1" by simp
    from tb_openat_fp [OF op] False have f1: "fds w1 fd = Some (Attr ''authorized'')" by simp
    from r1 False obtain okw w2 where
      wc: "tb_write_char fd (char_of sec) w1 = Some (okw, w2)"
      and r2: "(if \<not> okw then do { (r, w3) \<leftarrow> sys_close fd w2; Some (False, w3) }
         else tb_close fd w2) = Some (ok, w')"
      by (auto split: bind_splits)
    have a2: "accounted dev okw w1 w2"
      by (rule tb_write_char_acc [OF wc f1]) simp
    from tb_write_char_fp [OF wc] f1 have f2: "fds w2 fd = Some (Attr ''authorized'')" by auto
    show ?thesis
    proof (cases okw)
      case True
      with r2 have tc: "tb_close fd w2 = Some (ok, w')" by simp
      have a3: "accounted dev ok w2 w'"
        by (rule tb_close_acc [OF tc f2]) simp
      from a2 True have "accounted dev True w1 w2" by simp
      from this a3 have "accounted dev ok w1 w'" by (rule accounted_then)
      with a1' show ?thesis by (rule accounted_then)
    next
      case False
      with r2 obtain r where cl: "sys_close fd w2 = Some (r, w')" and nok: "\<not> ok"
        by (auto split: bind_splits)
      from a2 False have "accounted dev False w1 w2" by simp
      with a1' have "accounted dev False w w2" by (rule accounted_then)
      from sys_close_quiet [OF cl this] have "accounted dev False w w'" by simp
      with nok show ?thesis by simp
    qed
  qed
qed

lemma authorize_key_acc:
  assumes run: "authorize_key K dev d fd sec w = Some (after, w')"
  shows "accounted dev (after \<noteq> None) w w' \<and>
         (after \<noteq> None \<longrightarrow> (\<forall>x t. fds w x = Some t \<longrightarrow> fds w' x = Some t))"
proof -
  from run obtain key created w1 where
    ek: "tb_manager_ensure_key dev False w = Some ((key, created), w1)"
    and r1: "(case key of
         None \<Rightarrow> Some (None, w1)
       | Some path \<Rightarrow>
           do {
             (keyfd, w2) \<leftarrow> tb_openat d ''key'' O_WRONLY w1;
             if keyfd < 0 then Some (None, w2)
             else do {
               (ok, w3) \<leftarrow> copy_key K path keyfd w2;
               if \<not> ok then do { (r, w4) \<leftarrow> sys_close fd w3; Some (None, w4) }
               else do {
                 (ok, w4) \<leftarrow> tb_close keyfd w3;
                 if \<not> ok then Some (None, w4)
                 else Some (Some (if created then of_char (CHR ''1'') else sec), w4)
               }
             }
           }) = Some (after, w')"
    by (auto simp: authorize_key_def split: bind_splits)
  note a1 = tb_manager_ensure_key_acc [OF ek]
  from tb_manager_ensure_key_fp [OF ek] have f1: "fds w1 = fds w" by simp
  show ?thesis
  proof (cases key)
    case None
    with r1 have "after = None" "w' = w1" by auto
    with a1 None show ?thesis by simp
  next
    case (Some path)
    with a1 have a1': "accounted dev True w w1" by simp
    from r1 Some obtain keyfd w2 where
      op: "tb_openat d ''key'' O_WRONLY w1 = Some (keyfd, w2)"
      and r2: "(if keyfd < 0 then Some (None, w2)
             else do {
               (ok, w3) \<leftarrow> copy_key K path keyfd w2;
               if \<not> ok then do { (r, w4) \<leftarrow> sys_close fd w3; Some (None, w4) }
               else do {
                 (ok, w4) \<leftarrow> tb_close keyfd w3;
                 if \<not> ok then Some (None, w4)
                 else Some (Some (if created then of_char (CHR ''1'') else sec), w4)
               }
             }) = Some (after, w')"
      by (auto split: bind_splits)
    note a2 = tb_openat_acc [OF op, of dev]
    show ?thesis
    proof (cases "keyfd < 0")
      case True
      with r2 have r: "after = None" "w' = w2" by auto
      from a2 True have "accounted dev False w1 w2" by simp
      with a1' have "accounted dev False w w2" by (rule accounted_then)
      with r show ?thesis by simp
    next
      case False
      with a2 have "accounted dev True w1 w2" by simp
      with a1' have a12: "accounted dev True w w2" by (rule accounted_then)
      from tb_openat_fp [OF op] False have
        f2: "fds w2 = (fds w1)(keyfd \<mapsto> Attr ''key'')" "fds w1 keyfd = None" by simp_all
      then have f2': "fds w2 keyfd = Some (Attr ''key'')" by simp
      from r2 False obtain okc w3 where
        ck: "copy_key K path keyfd w2 = Some (okc, w3)"
        and r3: "(if \<not> okc then do { (r, w4) \<leftarrow> sys_close fd w3; Some (None, w4) }
               else do {
                 (ok, w4) \<leftarrow> tb_close keyfd w3;
                 if \<not> ok then Some (None, w4)
                 else Some (Some (if created then of_char (CHR ''1'') else sec), w4)
               }) = Some (after, w')"
        by (auto split: bind_splits)
      note a3 = copy_key_acc [OF ck f2', of dev]
      show ?thesis
      proof (cases okc)
        case nc: False
        with r3 obtain r where cl: "sys_close fd w3 = Some (r, w')" and r: "after = None"
          by (auto split: bind_splits)
        from a3 nc have "accounted dev False w2 w3" by simp
        with a12 have "accounted dev False w w3" by (rule accounted_then)
        from sys_close_quiet [OF cl this] have "accounted dev False w w'" by simp
        with r show ?thesis by simp
      next
        case c: True
        with a3 have "accounted dev True w2 w3" by simp
        with a12 have a13: "accounted dev True w w3" by (rule accounted_then)
        from copy_key_fp [OF ck] c obtain "from" where
          f3: "fds w2 from = None" "fds w3 = (fds w2)(from \<mapsto> File path)"
          by auto
        with f2' have fk: "from \<noteq> keyfd" "fds w3 keyfd = Some (Attr ''key'')" by auto
        from r3 c obtain okt w4 where
          tc: "tb_close keyfd w3 = Some (okt, w4)"
          and r4: "(if \<not> okt then Some (None, w4)
                 else Some (Some (if created then of_char (CHR ''1'') else sec), w4))
                 = Some (after, w')"
          by (auto split: bind_splits)
        have a4: "accounted dev okt w3 w4"
          by (rule tb_close_acc [OF tc fk(2)]) simp
        from a13 a4 have a14: "accounted dev okt w w4" by (rule accounted_then)
        from r4 have r: "after \<noteq> None \<longleftrightarrow> okt" "w' = w4" by (auto split: if_splits)
        from tb_close_fp [OF tc] have f4: "fds w4 = (fds w3)(keyfd := None)" by simp
        have keep: "fds w4 x = Some t" if "fds w x = Some t" for x t
        proof -
          from that f1 f2(2) have "x \<noteq> keyfd" by auto
          moreover from that f1 f2 f3(1) have "x \<noteq> from" by (auto split: if_splits)
          ultimately show ?thesis using that f1 f2(1) f3(2) f4 by simp
        qed
        from a14 r keep show ?thesis by simp
      qed
    qed
  qed
qed


lemma authorize_in_dir_acc:
  assumes run: "authorize_in_dir K sec dev d w = Some (ok, w')"
  shows "accounted dev ok w w' \<and> (ok \<longrightarrow> (\<forall>x t. fds w x = Some t \<longrightarrow> fds w' x = Some t))"
proof -
  from run obtain fd w1 where
    op: "tb_openat d ''unique_id'' O_RDONLY w = Some (fd, w1)"
    and r1: "(if fd < 0 then Some (False, w1)
       else do {
         (ok, w2) \<leftarrow> tb_verify_uid fd (uid dev) w1;
         (r, w3) \<leftarrow> sys_close fd w2;
         if \<not> ok then Some (False, w3)
         else if sec = of_char (CHR ''2'') then
           do {
             (after, w4) \<leftarrow> authorize_key K dev d fd sec w3;
             case after of
               None \<Rightarrow> Some (False, w4)
             | Some security' \<Rightarrow> authorize_grant d security' w4
           }
         else authorize_grant d sec w3
       }) = Some (ok, w')"
    by (auto simp: authorize_in_dir_def split: bind_splits)
  note a1 = tb_openat_acc [OF op, of dev]
  show ?thesis
  proof (cases "fd < 0")
    case True
    with r1 have "\<not> ok" "w' = w1" by auto
    with a1 True show ?thesis by simp
  next
    case False
    then have fd: "0 \<le> fd" by simp
    with a1 have a1': "accounted dev True w w1" by simp
    from tb_openat_fp [OF op] fd have f1: "fds w1 fd = Some (Attr ''unique_id'')" by simp
    from r1 False obtain okv w2 r w3 where
      vf: "tb_verify_uid fd (uid dev) w1 = Some (okv, w2)"
      and cl: "sys_close fd w2 = Some (r, w3)"
      and r2: "(if \<not> okv then Some (False, w3)
         else if sec = of_char (CHR ''2'') then
           do {
             (after, w4) \<leftarrow> authorize_key K dev d fd sec w3;
             case after of
               None \<Rightarrow> Some (False, w4)
             | Some security' \<Rightarrow> authorize_grant d security' w4
           }
         else authorize_grant d sec w3) = Some (ok, w')"
      by (auto split: bind_splits)
    have a2: "accounted dev okv w1 w2"
      by (rule tb_verify_uid_acc [OF vf f1]) simp
    from tb_verify_uid_fp [OF vf] f1 have f2: "fds w2 fd = Some (Attr ''unique_id'')" by auto
    from a1' a2 have "accounted dev okv w w2" by (rule accounted_then)
    from sys_close_quiet [OF cl this] f2 have a3: "accounted dev okv w w3" by simp
    from uid_phase_fp [OF op fd vf cl] have f3: "fds w3 = fds w" by blast
    show ?thesis
    proof (cases okv)
      case False
      with r2 have "\<not> ok" "w' = w3" by auto
      with a3 False show ?thesis by simp
    next
      case v: True
      with a3 have a3': "accounted dev True w w3" by simp
      show ?thesis
      proof (cases "sec = of_char (CHR ''2'')")
        case False
        with r2 v have gr: "authorize_grant d sec w3 = Some (ok, w')" by simp
        from authorize_grant_fp [OF gr] have "fds w' = fds w3" by blast
        moreover from a3' authorize_grant_acc [OF gr] have "accounted dev ok w w'"
          by (rule accounted_then)
        ultimately show ?thesis using f3 by simp
      next
        case True
        with r2 v obtain after w4 where
          ak: "authorize_key K dev d fd sec w3 = Some (after, w4)"
          and r3: "(case after of
               None \<Rightarrow> Some (False, w4)
             | Some security' \<Rightarrow> authorize_grant d security' w4) = Some (ok, w')"
          by (auto split: bind_splits)
        from authorize_key_acc [OF ak] have
          a4: "accounted dev (after \<noteq> None) w3 w4"
          and f4: "after \<noteq> None \<longrightarrow> (\<forall>x t. fds w3 x = Some t \<longrightarrow> fds w4 x = Some t)"
          by simp_all
        from a3' a4 have a34: "accounted dev (after \<noteq> None) w w4" by (rule accounted_then)
        show ?thesis
        proof (cases after)
          case None
          with r3 have "\<not> ok" "w' = w4" by auto
          with a34 None show ?thesis by simp
        next
          case (Some s)
          with r3 have gr: "authorize_grant d s w4 = Some (ok, w')" by simp
          from authorize_grant_fp [OF gr] have f5: "fds w' = fds w4" by blast
          from a34 Some have "accounted dev True w w4" by simp
          from this authorize_grant_acc [OF gr] have "accounted dev ok w w'"
            by (rule accounted_then)
          with f3 f4 f5 Some show ?thesis by simp
        qed
      qed
    qed
  qed
qed

lemma tb_device_authorize_acc:
  assumes run: "tb_device_authorize K mgr dev w = Some ((ok, dev'), w')"
  shows "accounted dev ok w w'"
proof -
  let ?sec = "tb_manager_get_security_level mgr"
  let ?w0 = "w\<lparr>trace := trace w @ [EvAuthorize (uid dev)]\<rparr>"
  have a0: "accounted dev True w ?w0"
    by (rule accounted_ok_step [where e = "EvAuthorize (uid dev)"]) simp_all
  show ?thesis
  proof (cases "?sec < 1")
    case True
    with run have "ok" "w' = ?w0"
      by (auto simp: tb_device_authorize_def Let_def)
    with a0 show ?thesis by simp
  next
    case False
    with run obtain d w1 where
      op: "sys_open (Dir (sysfs dev)) O_RDONLY ?w0 = Some (d, w1)"
      and r1: "(if d < 0
           then Some ((False, dev),
                      g_set_error Could_not_open_directory (g_io_error_from_errno (errno w1)) w1)
           else do {
             (ok, w2) \<leftarrow> authorize_in_dir K ?sec dev d w1;
             (r, w3) \<leftarrow> sys_close d w2;
             Some ((ok, dev), w3)
           }) = Some ((ok, dev'), w')"
      by (auto simp: tb_device_authorize_def Let_def split: bind_splits)
    note fp = sys_open_fp [OF op]
    show ?thesis
    proof (cases "d < 0")
      case True
      with fp have d: "d = - 1" by simp
      from r1 True have r: "\<not> ok"
        "w' = g_set_error Could_not_open_directory (g_io_error_from_errno (errno w1)) w1"
        by auto
      have "accounted dev False ?w0 w'"
        by (rule accounted_fail_step
              [where e = "EvOpen (Dir (sysfs dev)) O_RDONLY (Failed (errno w1))"])
           (use fp d r(2) in simp_all)
      with a0 have "accounted dev False w w'" by (rule accounted_then)
      with r(1) show ?thesis by simp
    next
      case False
      then have nn: "0 \<le> d" by simp
      note en = sys_open_errno [OF op nn]
      have "accounted dev True ?w0 w1"
        by (rule accounted_ok_step [where e = "EvOpen (Dir (sysfs dev)) O_RDONLY (Returned d)"])
           (use fp en nn in simp_all)
      with a0 have a1: "accounted dev True w w1" by (rule accounted_then)
      from fp nn have f1: "fds w1 d = Some (Dir (sysfs dev))" by simp
      from r1 False obtain w2 r where
        ind: "authorize_in_dir K ?sec dev d w1 = Some (ok, w2)"
        and cl: "sys_close d w2 = Some (r, w')"
        by (auto split: bind_splits)
      from authorize_in_dir_acc [OF ind] have
        a2: "accounted dev ok w1 w2"
        and f2: "ok \<longrightarrow> (\<forall>x t. fds w1 x = Some t \<longrightarrow> fds w2 x = Some t)"
        by simp_all
      from a1 a2 have a12: "accounted dev ok w w2" by (rule accounted_then)
      show ?thesis
      proof (rule sys_close_quiet [OF cl a12])
        assume ok
        with f2 f1 have "fds w2 d = Some (Dir (sysfs dev))" by blast
        then show "\<forall>a. fds w2 d = Some (Attr a) \<longrightarrow> a = ''unique_id''" by simp
      qed
    qed
  qed
qed

text \<open>The definitions that a run on given replies unfolds.\<close>

lemmas run_defs =
  start_def key_attr_open_def answered_def g_set_error_def
  sys_open_def sys_read_def sys_write_def sys_close_def
  tb_manager_get_security_level_def tb_manager_lookup_def tb_manager_ensure_key_def
  tb_manager_store_def tb_close_def tb_openat_def tb_read_all_def copy_key_def
  authorize_key_def authorize_grant_def authorize_in_dir_def tb_device_authorize_def
  EINTR_def Let_def
  tb_write_char.simps tb_verify_uid.simps tb_read_all_loop.simps copy_key_write.simps

section \<open>Security level below 1: nothing to do\<close>

text \<open>
  C5. With a security level below 1 (the level \<open>None\<close>), \<^verbatim>\<open>tb_device_authorize\<close>
  returns TRUE at once: the state it leaves differs from the one it found only by the
  record of its own entry. No reply is consumed, so no directory was opened, nothing was
  read and nothing was written; no descriptor and no error changed.
\<close>

theorem authorize_level_none_no_io:
  "tb_manager_get_security_level mgr < 1 \<Longrightarrow>
   tb_device_authorize K mgr dev w =
     Some ((True, dev), w\<lparr>trace := trace w @ [EvAuthorize (uid dev)]\<rparr>)"
  by (simp add: tb_device_authorize_def Let_def)

theorem authorize_level_none_no_io_witness:
  "tb_manager_get_security_level (sample_manager 0) < 1 \<and>
   tb_device_authorize 64 (sample_manager 0) sample_device (start [Ret 3, Ret 4]) =
     Some ((True, sample_device),
           \<lparr>script = [Ret 3, Ret 4], trace = [EvAuthorize ''AA11''], fds = Map.empty,
            errno = 0, err = None\<rparr>)"
proof -
  have h: "tb_manager_get_security_level (sample_manager 0) < 1"
    by (simp add: tb_manager_get_security_level_def sample_manager_def)
  show ?thesis
    using h authorize_level_none_no_io [OF h, of 64 sample_device "start [Ret 3, Ret 4]"]
    by (simp add: start_def sample_device_def)
qed

section \<open>The \<^verbatim>\<open>auto\<close> command on a device that is not set up for it\<close>

text \<open>
  C9. The \<^verbatim>\<open>auto\<close> command, given a uid that the manager finds, exits with status 0
  when the device is not in the store or its policy is not \<open>TB_POLICY_AUTO\<close>. The state
  it leaves is the one it found (with its own \<^verbatim>\<open>error\<close> NULL): the trace has no new
  entry, so \<^verbatim>\<open>tb_device_authorize\<close> was not entered, and the device record is
  unchanged.
\<close>

theorem auto_device_not_auto_exits_zero:
  assumes "parse_ok c" and "2 \<le> length (argv c)"
    and "tb_manager_lookup mgr (argv c ! 1) = Some dev"
    and "\<not> in_store dev \<or> policy dev \<noteq> TB_POLICY_AUTO"
  shows "auto_device K mgr c w = Some ((Exit 0, Some dev), w\<lparr>err := None\<rparr>)"
  using assms by (auto simp: auto_device_def Let_def EXIT_SUCCESS_def)

theorem auto_device_not_auto_exits_zero_witness:
  "auto_device 64 (sample_manager 49)
     \<lparr>parse_ok = True, argv = [''auto'', ''AA11''], do_store = False, do_auto = False\<rparr>
     (start [Ret 3, Ret 4]) =
   Some ((Exit 0, Some sample_device), start [Ret 3, Ret 4])"
proof -
  let ?c = "\<lparr>parse_ok = True, argv = [''auto'', ''AA11''], do_store = False, do_auto = False\<rparr>"
  have "auto_device 64 (sample_manager 49) ?c (start [Ret 3, Ret 4]) =
          Some ((Exit 0, Some sample_device), (start [Ret 3, Ret 4])\<lparr>err := None\<rparr>)"
    by (rule auto_device_not_auto_exits_zero)
       (simp_all add: tb_manager_lookup_def sample_manager_def sample_device_def)
  then show ?thesis by (simp add: start_def)
qed

section \<open>Copying the key\<close>

text \<open>
  C7. \<^verbatim>\<open>copy_key\<close> reads the stored key with one call of \<^verbatim>\<open>tb_read_all\<close> for
  \<open>TB_KEY_CHARS\<close> bytes. When the reads of a run have delivered fewer bytes than
  that, \<^verbatim>\<open>copy_key\<close> returns FALSE with an error set, and the run has made no
  \<^verbatim>\<open>write\<close> call at all: nothing reaches the \<^verbatim>\<open>key\<close> attribute, and the short read
  is an error, not a missing key.
\<close>

theorem copy_key_short_read_fails:
  assumes run: "copy_key K path to w = Some (ok, w')"
    and short: "length (bytes_read (new_events w w')) < K"
  shows "\<not> ok \<and> err w' \<noteq> None \<and> (\<forall>e\<in>set (new_events w w'). \<not> is_write e)"
proof -
  from copy_key_fp [OF run] obtain opn rds wrs where
    tr: "trace w' = trace w @ EvOpen (File path) O_RDONLY opn # rds @ wrs"
    and rd: "\<forall>e\<in>set rds. is_read_of (Some (File path)) e"
    and er: "if ok then err w' = err w else err w' \<noteq> None"
    and sh: "wrs = [] \<and> \<not> ok \<or>
       length (bytes_read rds) = K \<and>
       (\<exists>m res. wrs = replicate m (EvWrite (fds w' to) (bytes_read rds) (Failed EINTR)) @
                      [EvWrite (fds w' to) (bytes_read rds) res])"
    by blast
  have ne: "new_events w w' = EvOpen (File path) O_RDONLY opn # rds @ wrs"
    using tr by simp
  from sh short ne have w0: "wrs = []" and nok: "\<not> ok"
    by auto
  from rd have "\<forall>e\<in>set rds. \<not> is_write e"
    by (blast dest: read_is_no_write)
  with ne w0 nok er show ?thesis by simp
qed

theorem copy_key_short_read_fails_witness:
  "copy_key 4 ''/k'' 5 (key_attr_open [Ret 6, Data ''ab'', Data []]) =
     Some (False,
       \<lparr>script = [],
        trace = [EvOpen (File ''/k'') O_RDONLY (Returned 6),
                 EvRead (Some (File ''/k'')) 4 (Returned 2) ''ab'',
                 EvRead (Some (File ''/k'')) 2 (Returned 0) []],
        fds = [5 \<mapsto> Attr ''key'', 6 \<mapsto> File ''/k''], errno = 0,
        err = Some (GError Could_not_read_entire_key_from_disk G_IO_ERROR_FAILED)\<rparr>) \<and>
   bytes_read [EvOpen (File ''/k'') O_RDONLY (Returned 6),
               EvRead (Some (File ''/k'')) 4 (Returned 2) ''ab'',
               EvRead (Some (File ''/k'')) 2 (Returned 0) []] = ''ab''"
proof -
  let ?w = "key_attr_open [Ret 6, Data ''ab'', Data []]"
  let ?w' = "\<lparr>script = [],
        trace = [EvOpen (File ''/k'') O_RDONLY (Returned 6),
                 EvRead (Some (File ''/k'')) 4 (Returned 2) ''ab'',
                 EvRead (Some (File ''/k'')) 2 (Returned 0) []],
        fds = [5 \<mapsto> Attr ''key'', 6 \<mapsto> File ''/k''], errno = 0,
        err = Some (GError Could_not_read_entire_key_from_disk G_IO_ERROR_FAILED)\<rparr>"
  have run: "copy_key 4 ''/k'' 5 ?w = Some (False, ?w')"
    by (simp add: run_defs)
  have short: "length (bytes_read (new_events ?w ?w')) < 4"
    by (simp add: new_events_def run_defs)
  from copy_key_short_read_fails [OF run short] run show ?thesis
    by simp
qed





section \<open>Sample runs of the engine\<close>

text \<open>The grant codes: the characters '1' and '2' are the numbers 49 and 50.\<close>

lemma char_of_49: "char_of (49::int) = CHR ''1''"
  by code_simp

lemma char_of_50: "char_of (50::int) = CHR ''2''"
  by code_simp

text \<open>
  The live \<^verbatim>\<open>unique_id\<close> is that of another device: the directory opens as descriptor
  3, \<^verbatim>\<open>unique_id\<close> as 4, the read delivers \<open>BB22\<close>, both descriptors are closed.
\<close>

definition foreign_uid_replies :: "reply list" where
  "foreign_uid_replies = [Ret 3, Ret 4, Data ''BB22'', Ret 0, Ret 0]"

definition foreign_uid_end :: world where
  "foreign_uid_end =
     \<lparr>script = [],
      trace = [EvAuthorize ''AA11'',
               EvOpen (Dir ''/sys/tb/0-1'') O_RDONLY (Returned 3),
               EvOpen (Attr ''unique_id'') O_RDONLY (Returned 4),
               EvRead (Some (Attr ''unique_id'')) 4 (Returned 4) ''BB22'',
               EvClose 4 (Some (Attr ''unique_id'')) (Returned 0),
               EvClose 3 (Some (Dir ''/sys/tb/0-1'')) (Returned 0)],
      fds = Map.empty, errno = 0,
      err = Some (GError Unique_id_verification_failed G_IO_ERROR_FAILED)\<rparr>"

lemma foreign_uid_run:
  "tb_device_authorize 4 (sample_manager 49) sample_device (start foreign_uid_replies) =
     Some ((False, sample_device), foreign_uid_end)"
  by (simp add: run_defs sample_manager_def sample_device_def foreign_uid_replies_def
        foreign_uid_end_def fun_eq_iff)

text \<open>
  Level '1' and the right uid: the grant byte is written and everything is closed.
\<close>

definition user_replies :: "reply list" where
  "user_replies = [Ret 3, Ret 4, Data ''AA11'', Ret 0, Ret 4, Ret 1, Ret 0, Ret 0]"

definition user_end :: world where
  "user_end =
     \<lparr>script = [],
      trace = [EvAuthorize ''AA11'',
               EvOpen (Dir ''/sys/tb/0-1'') O_RDONLY (Returned 3),
               EvOpen (Attr ''unique_id'') O_RDONLY (Returned 4),
               EvRead (Some (Attr ''unique_id'')) 4 (Returned 4) ''AA11'',
               EvClose 4 (Some (Attr ''unique_id'')) (Returned 0),
               EvOpen (Attr ''authorized'') O_WRONLY (Returned 4),
               EvWrite (Some (Attr ''authorized'')) ''1'' (Returned 1),
               EvClose 4 (Some (Attr ''authorized'')) (Returned 0),
               EvClose 3 (Some (Dir ''/sys/tb/0-1'')) (Returned 0)],
      fds = Map.empty, errno = 0, err = None\<rparr>"

lemma user_run:
  "tb_device_authorize 4 (sample_manager 49) sample_device (start user_replies) =
     Some ((True, sample_device), user_end)"
  by (simp add: run_defs sample_manager_def sample_device_def user_replies_def user_end_def
        char_of_49 fun_eq_iff)

text \<open>
  Level '2', the key freshly created (\<open>TB_KEY_CHARS\<close> is 4 in the samples): the kernel
  gives the lowest free descriptor number each time, so \<^verbatim>\<open>key\<close> and \<^verbatim>\<open>authorized\<close> are
  descriptor 4 again and the key file is 5. The run succeeds.
\<close>

definition secure_replies :: "reply list" where
  "secure_replies =
     [Ret 3, Ret 4, Data ''AA11'', Ret 0, KeyReply (Some ''/k'') True, Ret 4, Ret 5,
      Data ''abcd'', Ret 4, Ret 0, Ret 4, Ret 1, Ret 0, Ret 0]"

definition secure_before_grant :: "event list" where
  "secure_before_grant =
     [EvAuthorize ''AA11'',
      EvOpen (Dir ''/sys/tb/0-1'') O_RDONLY (Returned 3),
      EvOpen (Attr ''unique_id'') O_RDONLY (Returned 4),
      EvRead (Some (Attr ''unique_id'')) 4 (Returned 4) ''AA11'',
      EvClose 4 (Some (Attr ''unique_id'')) (Returned 0),
      EvEnsureKey ''AA11'' False (Some ''/k'') True,
      EvOpen (Attr ''key'') O_WRONLY (Returned 4),
      EvOpen (File ''/k'') O_RDONLY (Returned 5),
      EvRead (Some (File ''/k'')) 4 (Returned 4) ''abcd'',
      EvWrite (Some (Attr ''key'')) ''abcd'' (Returned 4),
      EvClose 4 (Some (Attr ''key'')) (Returned 0)]"

definition secure_from_grant :: "event list" where
  "secure_from_grant =
     [EvWrite (Some (Attr ''authorized'')) ''1'' (Returned 1),
      EvClose 4 (Some (Attr ''authorized'')) (Returned 0),
      EvClose 3 (Some (Dir ''/sys/tb/0-1'')) (Returned 0)]"

definition secure_end :: world where
  "secure_end =
     \<lparr>script = [],
      trace = secure_before_grant @
              EvOpen (Attr ''authorized'') O_WRONLY (Returned 4) # secure_from_grant,
      fds = [5 \<mapsto> File ''/k''], errno = 0, err = None\<rparr>"

lemma secure_run:
  "tb_device_authorize 4 (sample_manager 50) sample_device (start secure_replies) =
     Some ((True, sample_device), secure_end)"
  by (simp add: run_defs sample_manager_def sample_device_def secure_replies_def secure_end_def
        secure_before_grant_def secure_from_grant_def char_of_49 fun_eq_iff)

lemma secure_new_events:
  "new_events (start secure_replies) secure_end =
     secure_before_grant @ EvOpen (Attr ''authorized'') O_WRONLY (Returned 4) # secure_from_grant"
  by (simp add: new_events_def start_def secure_end_def)

text \<open>
  Level '2', the key already there: the same calls, \<^verbatim>\<open>created\<close> comes back false.
\<close>

definition existing_key_replies :: "reply list" where
  "existing_key_replies =
     [Ret 3, Ret 4, Data ''AA11'', Ret 0, KeyReply (Some ''/k'') False, Ret 4, Ret 5,
      Data ''abcd'', Ret 4, Ret 0, Ret 4, Ret 1, Ret 0, Ret 0]"

definition existing_key_end :: world where
  "existing_key_end =
     \<lparr>script = [],
      trace = [EvAuthorize ''AA11'',
               EvOpen (Dir ''/sys/tb/0-1'') O_RDONLY (Returned 3),
               EvOpen (Attr ''unique_id'') O_RDONLY (Returned 4),
               EvRead (Some (Attr ''unique_id'')) 4 (Returned 4) ''AA11'',
               EvClose 4 (Some (Attr ''unique_id'')) (Returned 0),
               EvEnsureKey ''AA11'' False (Some ''/k'') False,
               EvOpen (Attr ''key'') O_WRONLY (Returned 4),
               EvOpen (File ''/k'') O_RDONLY (Returned 5),
               EvRead (Some (File ''/k'')) 4 (Returned 4) ''abcd'',
               EvWrite (Some (Attr ''key'')) ''abcd'' (Returned 4),
               EvClose 4 (Some (Attr ''key'')) (Returned 0),
               EvOpen (Attr ''authorized'') O_WRONLY (Returned 4),
               EvWrite (Some (Attr ''authorized'')) ''2'' (Returned 1),
               EvClose 4 (Some (Attr ''authorized'')) (Returned 0),
               EvClose 3 (Some (Dir ''/sys/tb/0-1'')) (Returned 0)],
      fds = [5 \<mapsto> File ''/k''], errno = 0, err = None\<rparr>"

lemma existing_key_run:
  "tb_device_authorize 4 (sample_manager 50) sample_device (start existing_key_replies) =
     Some ((True, sample_device), existing_key_end)"
  by (simp add: run_defs sample_manager_def sample_device_def existing_key_replies_def
        existing_key_end_def char_of_50 fun_eq_iff)

text \<open>
  Level '2', the \<^verbatim>\<open>write\<close> of the key first interrupted (\<^verbatim>\<open>EINTR\<close> is 4), then taking
  2 of the 4 bytes: \<^verbatim>\<open>copy_key\<close> fails, \<^verbatim>\<open>close (fd)\<close> closes number 4, which \<^verbatim>\<open>key\<close>
  has by now, and the error carries the \<^verbatim>\<open>errno\<close> the interrupted call left.
\<close>

definition short_write_replies :: "reply list" where
  "short_write_replies =
     [Ret 3, Ret 4, Data ''AA11'', Ret 0, KeyReply (Some ''/k'') False, Ret 4, Ret 5,
      Data ''abcd'', Fail 4, Ret 2, Ret 0, Ret 0]"

definition short_write_end :: world where
  "short_write_end =
     \<lparr>script = [],
      trace = [EvAuthorize ''AA11'',
               EvOpen (Dir ''/sys/tb/0-1'') O_RDONLY (Returned 3),
               EvOpen (Attr ''unique_id'') O_RDONLY (Returned 4),
               EvRead (Some (Attr ''unique_id'')) 4 (Returned 4) ''AA11'',
               EvClose 4 (Some (Attr ''unique_id'')) (Returned 0),
               EvEnsureKey ''AA11'' False (Some ''/k'') False,
               EvOpen (Attr ''key'') O_WRONLY (Returned 4),
               EvOpen (File ''/k'') O_RDONLY (Returned 5),
               EvRead (Some (File ''/k'')) 4 (Returned 4) ''abcd'',
               EvWrite (Some (Attr ''key'')) ''abcd'' (Failed 4),
               EvWrite (Some (Attr ''key'')) ''abcd'' (Returned 2),
               EvClose 4 (Some (Attr ''key'')) (Returned 0),
               EvClose 3 (Some (Dir ''/sys/tb/0-1'')) (Returned 0)],
      fds = [5 \<mapsto> File ''/k''], errno = 4,
      err = Some (GError Io_error_while_writing_key_data (g_io_error_from_errno 4))\<rparr>"

lemma short_write_run:
  "tb_device_authorize 4 (sample_manager 50) sample_device (start short_write_replies) =
     Some ((False, sample_device), short_write_end)"
  by (simp add: run_defs sample_manager_def sample_device_def short_write_replies_def
        short_write_end_def fun_eq_iff)

text \<open>
  An environment in which every call succeeds, for any device, key file \<open>p\<close>, answer
  \<open>c\<close> for \<^verbatim>\<open>created\<close> and key bytes: the directory opens as \<open>d\<close>; \<^verbatim>\<open>unique_id\<close>,
  \<^verbatim>\<open>key\<close> and \<^verbatim>\<open>authorized\<close> open one after the other as \<open>fd\<close>; the key file opens
  as \<open>ffd\<close>; the reads deliver the uid and the whole key; the writes take all bytes.
\<close>

definition cooperative ::
    "TbDevice \<Rightarrow> string \<Rightarrow> bool \<Rightarrow> string \<Rightarrow> int \<Rightarrow> int \<Rightarrow> int \<Rightarrow> reply list" where
  "cooperative dev p c key d fd ffd =
     [Ret d, Ret fd, Data (uid dev), Ret 0, KeyReply (Some p) c, Ret fd, Ret ffd,
      Data key, Ret (int (length key)), Ret 0, Ret fd, Ret 1, Ret 0, Ret 0]"

lemma cooperative_run:
  assumes sec: "tb_manager_get_security_level mgr = of_char (CHR ''2'')"
    and fresh: "0 \<le> d" "0 \<le> fd" "fd \<noteq> d" "0 \<le> ffd" "ffd \<noteq> d" "ffd \<noteq> fd"
  shows "\<exists>w1. tb_device_authorize (length key) mgr dev (start (cooperative dev p c key d fd ffd))
           = Some ((True, dev), w1) \<and>
         EvWrite (Some (Attr ''authorized'')) [if c then CHR ''1'' else CHR ''2''] (Returned 1)
           \<in> set (trace w1)"
proof (cases "key = []")
  case True
  with sec fresh show ?thesis
    by (cases c) (simp_all add: cooperative_def run_defs char_of_49 char_of_50)
next
  case False
  with sec fresh show ?thesis
    by (cases c) (simp_all add: cooperative_def run_defs char_of_49 char_of_50)
qed

section \<open>Verification of the uid\<close>

text \<open>
  C1. In a run of \<^verbatim>\<open>tb_device_authorize\<close> that starts with no error set, if a
  \<^verbatim>\<open>read\<close> of the \<^verbatim>\<open>unique_id\<close> attribute delivered bytes that are not exactly the
  device's uid (too few bytes included), the function returns FALSE with one of the two
  errors of the uid check set ("Could not read full uid from file", "unique id
  verification failed"), and the run has made no \<^verbatim>\<open>write\<close> call and has opened nothing
  for writing: neither \<^verbatim>\<open>key\<close> nor \<^verbatim>\<open>authorized\<close> was touched.
\<close>

theorem authorize_rejects_foreign_uid:
  assumes run: "tb_device_authorize K mgr dev w = Some ((ok, dev'), w')"
    and clean: "err w = None"
    and rd: "EvRead (Some (Attr ''unique_id'')) c (Returned n) bs \<in> set (new_events w w')"
    and ne: "bs \<noteq> uid dev"
  shows "\<not> ok \<and> (\<exists>x. err w' = Some x \<and> uid_verification_error x) \<and>
         (\<forall>e\<in>set (new_events w w'). \<not> is_write e \<and> \<not> opens_for_writing e)"
proof -
  from tb_device_authorize_summary [OF run]
  have s: "run_summary K (tb_manager_get_security_level mgr) dev ok (err w) (err w') (new_events w w')"
    by simp
  show ?thesis
  proof (rule run_summaryD [OF s])
    fix U KS GS sec'
    assume new: "new_events w w' = U @ KS @ GS"
      and pU: "\<forall>e\<in>set U. pre_phase_event e" and pK: "\<forall>e\<in>set KS. key_phase_event e"
      and pG: "\<forall>e\<in>set GS. grant_phase_event sec' e"
      and ver: "\<And>c n bs. EvRead (Some (Attr ''unique_id'')) c (Returned n) bs \<in> set U \<Longrightarrow> bs \<noteq> uid dev \<Longrightarrow>
           \<not> ok \<and> KS = [] \<and> (\<forall>e\<in>set GS. \<not> is_grant_event e) \<and>
           (err w = None \<longrightarrow> (\<exists>x. err w' = Some x \<and> uid_verification_error x))"
    have "EvRead (Some (Attr ''unique_id'')) c (Returned n) bs \<notin> set KS"
      using pK key_phase_facts by fastforce
    moreover have "EvRead (Some (Attr ''unique_id'')) c (Returned n) bs \<notin> set GS"
      using pG grant_phase_facts by fastforce
    ultimately have inU: "EvRead (Some (Attr ''unique_id'')) c (Returned n) bs \<in> set U"
      using rd new by auto
    from ver [OF inU ne] clean have nok: "\<not> ok" and K0: "KS = []"
      and G0: "\<forall>e\<in>set GS. \<not> is_grant_event e"
      and er: "\<exists>x. err w' = Some x \<and> uid_verification_error x"
      by simp_all
    have "\<forall>e\<in>set U. \<not> is_write e \<and> \<not> opens_for_writing e"
      using pU pre_phase_facts by blast
    moreover have "\<forall>e\<in>set GS. \<not> is_write e \<and> \<not> opens_for_writing e"
      using pG G0 grant_phase_facts by blast
    ultimately have "\<forall>e\<in>set (new_events w w'). \<not> is_write e \<and> \<not> opens_for_writing e"
      using new K0 by auto
    with nok er show ?thesis by simp
  qed
qed

theorem authorize_rejects_foreign_uid_witness:
  "tb_device_authorize 4 (sample_manager 49) sample_device (start foreign_uid_replies) =
     Some ((False, sample_device), foreign_uid_end) \<and>
   err (start foreign_uid_replies) = None \<and>
   ''BB22'' \<noteq> uid sample_device \<and>
   err foreign_uid_end = Some (GError Unique_id_verification_failed G_IO_ERROR_FAILED) \<and>
   filter is_write (new_events (start foreign_uid_replies) foreign_uid_end) = []"
proof -
  have clean: "err (start foreign_uid_replies) = None"
    by (simp add: start_def)
  have rd: "EvRead (Some (Attr ''unique_id'')) 4 (Returned 4) ''BB22''
              \<in> set (new_events (start foreign_uid_replies) foreign_uid_end)"
    by (simp add: new_events_def start_def foreign_uid_end_def)
  have ne: "''BB22'' \<noteq> uid sample_device"
    by (simp add: sample_device_def)
  from authorize_rejects_foreign_uid [OF foreign_uid_run clean rd ne]
  have "filter is_write (new_events (start foreign_uid_replies) foreign_uid_end) = []"
    by (simp add: filter_empty_conv)
  with foreign_uid_run clean ne show ?thesis
    by (simp add: foreign_uid_end_def)
qed

section \<open>The key and the grant at level '2'\<close>

text \<open>
  C2. At security level '2' the grant byte follows \<^verbatim>\<open>created\<close>. Where every call
  succeeds (the replies \<open>cooperative\<close>, for any device, key file, key bytes and fresh
  descriptor numbers) the function returns TRUE and has written to \<^verbatim>\<open>authorized\<close> the
  single byte '1' if \<^verbatim>\<open>tb_manager_ensure_key\<close> reported the key as created, and '2' if
  it reported it as existing. Every run at level '2' that returns TRUE has called
  \<^verbatim>\<open>tb_manager_ensure_key\<close> for the device and has written that byte, the \<^verbatim>\<open>write\<close>
  returning 1. And whatever call of \<^verbatim>\<open>tb_manager_ensure_key\<close> and \<^verbatim>\<open>write\<close> to
  \<^verbatim>\<open>authorized\<close> a run contains, the level is '2' and the bytes offered are that byte.
\<close>

theorem secure_grant_byte_follows_created:
  "(tb_manager_get_security_level mgr = of_char (CHR ''2'') \<and>
    0 \<le> d \<and> 0 \<le> fd \<and> fd \<noteq> d \<and> 0 \<le> ffd \<and> ffd \<noteq> d \<and> ffd \<noteq> fd \<longrightarrow>
      (\<exists>w1. tb_device_authorize (length key) mgr dev (start (cooperative dev p c key d fd ffd))
               = Some ((True, dev), w1) \<and>
            EvWrite (Some (Attr ''authorized'')) [if c then CHR ''1'' else CHR ''2''] (Returned 1)
              \<in> set (trace w1))) \<and>
   (tb_device_authorize K mgr dev w = Some ((ok, dev'), w') \<longrightarrow>
      (ok \<and> tb_manager_get_security_level mgr = of_char (CHR ''2'') \<longrightarrow>
         (\<exists>p created.
            EvEnsureKey (uid dev) False (Some p) created \<in> set (new_events w w') \<and>
            EvWrite (Some (Attr ''authorized'')) [if created then CHR ''1'' else CHR ''2'']
              (Returned 1) \<in> set (new_events w w'))) \<and>
      (\<forall>u rep p created bs r.
         EvEnsureKey u rep p created \<in> set (new_events w w') \<and>
         EvWrite (Some (Attr ''authorized'')) bs r \<in> set (new_events w w') \<longrightarrow>
         tb_manager_get_security_level mgr = of_char (CHR ''2'') \<and>
         bs = [if created then CHR ''1'' else CHR ''2'']))"
proof (rule conjI)
  show "tb_manager_get_security_level mgr = of_char (CHR ''2'') \<and>
    0 \<le> d \<and> 0 \<le> fd \<and> fd \<noteq> d \<and> 0 \<le> ffd \<and> ffd \<noteq> d \<and> ffd \<noteq> fd \<longrightarrow>
      (\<exists>w1. tb_device_authorize (length key) mgr dev (start (cooperative dev p c key d fd ffd))
               = Some ((True, dev), w1) \<and>
            EvWrite (Some (Attr ''authorized'')) [if c then CHR ''1'' else CHR ''2''] (Returned 1)
              \<in> set (trace w1))"
    by (intro impI cooperative_run) simp_all
next
  let ?sec = "tb_manager_get_security_level mgr"
  show "tb_device_authorize K mgr dev w = Some ((ok, dev'), w') \<longrightarrow>
      (ok \<and> ?sec = of_char (CHR ''2'') \<longrightarrow>
         (\<exists>p created.
            EvEnsureKey (uid dev) False (Some p) created \<in> set (new_events w w') \<and>
            EvWrite (Some (Attr ''authorized'')) [if created then CHR ''1'' else CHR ''2'']
              (Returned 1) \<in> set (new_events w w'))) \<and>
      (\<forall>u rep p created bs r.
         EvEnsureKey u rep p created \<in> set (new_events w w') \<and>
         EvWrite (Some (Attr ''authorized'')) bs r \<in> set (new_events w w') \<longrightarrow>
         ?sec = of_char (CHR ''2'') \<and>
         bs = [if created then CHR ''1'' else CHR ''2''])"
  proof (rule impI)
    assume run: "tb_device_authorize K mgr dev w = Some ((ok, dev'), w')"
    from tb_device_authorize_summary [OF run]
    have s: "run_summary K ?sec dev ok (err w) (err w') (new_events w w')"
      by simp
    show "(ok \<and> ?sec = of_char (CHR ''2'') \<longrightarrow>
           (\<exists>p created.
              EvEnsureKey (uid dev) False (Some p) created \<in> set (new_events w w') \<and>
              EvWrite (Some (Attr ''authorized'')) [if created then CHR ''1'' else CHR ''2'']
                (Returned 1) \<in> set (new_events w w'))) \<and>
        (\<forall>u rep p created bs r.
           EvEnsureKey u rep p created \<in> set (new_events w w') \<and>
           EvWrite (Some (Attr ''authorized'')) bs r \<in> set (new_events w w') \<longrightarrow>
           ?sec = of_char (CHR ''2'') \<and>
           bs = [if created then CHR ''1'' else CHR ''2''])"
    proof (rule run_summaryD [OF s])
      fix U KS GS and sec' :: int
      assume new: "new_events w w' = U @ KS @ GS"
        and pU: "\<forall>e\<in>set U. pre_phase_event e" and pK: "\<forall>e\<in>set KS. key_phase_event e"
        and pG: "\<forall>e\<in>set GS. grant_phase_event sec' e"
        and plain: "?sec \<noteq> of_char (CHR ''2'') \<Longrightarrow> KS = [] \<and> sec' = ?sec"
        and secure: "?sec = of_char (CHR ''2'') \<Longrightarrow> \<exists>e\<in>set GS. is_grant_event e \<Longrightarrow>
             key_provisioned K dev KS \<and>
             (\<forall>u rep p c. EvEnsureKey u rep p c \<in> set KS \<longrightarrow>
                sec' = (if c then of_char (CHR ''1'') else of_char (CHR ''2'')))"
        and fin: "if ok then err w' = err w \<and>
                      (1 \<le> ?sec \<longrightarrow>
                         EvWrite (Some (Attr ''authorized'')) [char_of sec'] (Returned 1) \<in> set GS)
           else err w' \<noteq> None \<or>
                EvWrite (Some (Attr ''authorized'')) [char_of sec'] (Returned 0) \<in> set GS"
      have byte: "char_of sec' = (if c then CHR ''1'' else CHR ''2'')"
        if "sec' = (if c then of_char (CHR ''1'') else of_char (CHR ''2''))" for c
        using that by (cases c) (simp_all only: if_True if_False char_of_char)
      have written: "\<exists>p created.
                 EvEnsureKey (uid dev) False (Some p) created \<in> set (new_events w w') \<and>
                 EvWrite (Some (Attr ''authorized'')) [if created then CHR ''1'' else CHR ''2'']
                   (Returned 1) \<in> set (new_events w w')"
        if ok: ok and sec: "?sec = of_char (CHR ''2'')"
      proof -
        have "(1::int) \<le> of_char (CHR ''2'')" by simp
        with fin ok sec
        have gw: "EvWrite (Some (Attr ''authorized'')) [char_of sec'] (Returned 1) \<in> set GS"
          by simp
        have "is_grant_event (EvWrite (Some (Attr ''authorized'')) [char_of sec'] (Returned 1))"
          by simp
        with gw have "\<exists>e\<in>set GS. is_grant_event e" by blast
        from secure [OF sec this] have kp: "key_provisioned K dev KS"
          and cr: "\<And>u rep p c. EvEnsureKey u rep p c \<in> set KS \<Longrightarrow>
                sec' = (if c then of_char (CHR ''1'') else of_char (CHR ''2''))"
          by blast+
        from kp obtain p c where ek: "EvEnsureKey (uid dev) False (Some p) c \<in> set KS"
          unfolding key_provisioned_def by blast
        from byte [OF cr [OF ek]] gw
        have "EvWrite (Some (Attr ''authorized'')) [if c then CHR ''1'' else CHR ''2''] (Returned 1)
                \<in> set GS" by simp
        with ek new show ?thesis
          by (intro exI [of _ p] exI [of _ c]) simp
      qed
      have follows: "?sec = of_char (CHR ''2'') \<and> bs = [if created then CHR ''1'' else CHR ''2'']"
        if ek: "EvEnsureKey u rep p created \<in> set (new_events w w')"
          and gw: "EvWrite (Some (Attr ''authorized'')) bs r \<in> set (new_events w w')"
        for u rep p created bs r
      proof -
        let ?ek = "EvEnsureKey u rep p created"
        let ?gw = "EvWrite (Some (Attr ''authorized'')) bs r"
        have "\<not> pre_phase_event ?ek" "\<not> grant_phase_event sec' ?ek" by simp_all
        with pU pG have "?ek \<notin> set U" "?ek \<notin> set GS" by blast+
        with ek new have inK: "?ek \<in> set KS" by auto
        have sec: "?sec = of_char (CHR ''2'')"
        proof (rule ccontr)
          assume "?sec \<noteq> of_char (CHR ''2'')"
          from plain [OF this] inK show False by simp
        qed
        have "\<not> pre_phase_event ?gw" "\<not> key_phase_event ?gw" by simp_all
        with pU pK have "?gw \<notin> set U" "?gw \<notin> set KS" by blast+
        with gw new have inG: "?gw \<in> set GS" by auto
        with pG have "grant_phase_event sec' ?gw" by blast
        then have bs: "bs = [char_of sec']" by simp
        have "is_grant_event ?gw" by simp
        with inG have "\<exists>e\<in>set GS. is_grant_event e" by blast
        from secure [OF sec this] inK
        have "sec' = (if created then of_char (CHR ''1'') else of_char (CHR ''2''))"
          by blast
        from byte [OF this] bs sec show ?thesis by (simp only:)
      qed
      from written follows show ?thesis by blast
    qed
  qed
qed

theorem secure_grant_byte_follows_created_witness:
  "tb_manager_get_security_level (sample_manager 50) = of_char (CHR ''2'') \<and>
   cooperative sample_device ''/k'' True ''abcd'' 3 4 5 = secure_replies \<and>
   tb_device_authorize 4 (sample_manager 50) sample_device (start secure_replies) =
     Some ((True, sample_device), secure_end) \<and>
   EvEnsureKey ''AA11'' False (Some ''/k'') True \<in> set (trace secure_end) \<and>
   EvWrite (Some (Attr ''authorized'')) ''1'' (Returned 1) \<in> set (trace secure_end) \<and>
   cooperative sample_device ''/k'' False ''abcd'' 3 4 5 = existing_key_replies \<and>
   tb_device_authorize 4 (sample_manager 50) sample_device (start existing_key_replies) =
     Some ((True, sample_device), existing_key_end) \<and>
   EvEnsureKey ''AA11'' False (Some ''/k'') False \<in> set (trace existing_key_end) \<and>
   EvWrite (Some (Attr ''authorized'')) ''2'' (Returned 1) \<in> set (trace existing_key_end)"
proof -
  have sec: "tb_manager_get_security_level (sample_manager 50) = of_char (CHR ''2'')"
    by (simp add: tb_manager_get_security_level_def sample_manager_def)
  have c1: "cooperative sample_device ''/k'' True ''abcd'' 3 4 5 = secure_replies"
    and c2: "cooperative sample_device ''/k'' False ''abcd'' 3 4 5 = existing_key_replies"
    by (simp_all add: cooperative_def sample_device_def secure_replies_def
          existing_key_replies_def)
  have n1: "new_events (start secure_replies) secure_end = trace secure_end"
    and n2: "new_events (start existing_key_replies) existing_key_end = trace existing_key_end"
    by (simp_all add: new_events_def start_def)
  have ek1: "EvEnsureKey ''AA11'' False (Some ''/k'') True \<in> set (trace secure_end)"
    by (simp add: secure_end_def secure_before_grant_def)
  have ek2: "EvEnsureKey ''AA11'' False (Some ''/k'') False \<in> set (trace existing_key_end)"
    by (simp add: existing_key_end_def)
  note t1 = secure_grant_byte_follows_created
    [where mgr = "sample_manager 50" and dev = sample_device and d = 3 and fd = 4 and ffd = 5
       and key = "''abcd''" and p = "''/k''" and c = True and K = 4
       and w = "start secure_replies" and ok = True and dev' = sample_device
       and w' = secure_end]
  note t2 = secure_grant_byte_follows_created
    [where mgr = "sample_manager 50" and dev = sample_device and d = 3 and fd = 4 and ffd = 5
       and key = "''abcd''" and p = "''/k''" and c = False and K = 4
       and w = "start existing_key_replies" and ok = True and dev' = sample_device
       and w' = existing_key_end]
  have k: "length ''abcd'' = 4" by simp
  have "\<exists>w1. tb_device_authorize (length ''abcd'') (sample_manager 50) sample_device
                (start (cooperative sample_device ''/k'' True ''abcd'' 3 4 5))
               = Some ((True, sample_device), w1) \<and>
            EvWrite (Some (Attr ''authorized'')) [if True then CHR ''1'' else CHR ''2''] (Returned 1)
              \<in> set (trace w1)"
    by (rule t1 [THEN conjunct1, THEN mp]) (simp add: sec)
  then obtain x1 where
    "tb_device_authorize 4 (sample_manager 50) sample_device (start secure_replies)
       = Some ((True, sample_device), x1)"
    and "EvWrite (Some (Attr ''authorized'')) ''1'' (Returned 1) \<in> set (trace x1)"
    unfolding k c1 by auto
  with secure_run
  have w1: "EvWrite (Some (Attr ''authorized'')) ''1'' (Returned 1) \<in> set (trace secure_end)"
    by simp
  have "\<exists>w1. tb_device_authorize (length ''abcd'') (sample_manager 50) sample_device
                (start (cooperative sample_device ''/k'' False ''abcd'' 3 4 5))
               = Some ((True, sample_device), w1) \<and>
            EvWrite (Some (Attr ''authorized'')) [if False then CHR ''1'' else CHR ''2''] (Returned 1)
              \<in> set (trace w1)"
    by (rule t2 [THEN conjunct1, THEN mp]) (simp add: sec)
  then obtain x2 where
    "tb_device_authorize 4 (sample_manager 50) sample_device (start existing_key_replies)
       = Some ((True, sample_device), x2)"
    and "EvWrite (Some (Attr ''authorized'')) ''2'' (Returned 1) \<in> set (trace x2)"
    unfolding k c2 by auto
  with existing_key_run
  have w2: "EvWrite (Some (Attr ''authorized'')) ''2'' (Returned 1)
              \<in> set (trace existing_key_end)"
    by simp
  have g1: "EvWrite (Some (Attr ''authorized'')) ''1'' (Returned 1)
              \<in> set (new_events (start secure_replies) secure_end)"
    and g2: "EvWrite (Some (Attr ''authorized'')) ''2'' (Returned 1)
              \<in> set (new_events (start existing_key_replies) existing_key_end)"
    using w1 w2 n1 n2 by simp_all
  have e1: "EvEnsureKey ''AA11'' False (Some ''/k'') True
              \<in> set (new_events (start secure_replies) secure_end)"
    and e2: "EvEnsureKey ''AA11'' False (Some ''/k'') False
              \<in> set (new_events (start existing_key_replies) existing_key_end)"
    using ek1 ek2 n1 n2 by simp_all
  from t1 [THEN conjunct2, THEN mp, OF secure_run, THEN conjunct2] e1 g1
  have l1: "tb_manager_get_security_level (sample_manager 50) = of_char (CHR ''2'')"
    by blast
  from t2 [THEN conjunct2, THEN mp, OF existing_key_run, THEN conjunct2] e2 g2
  have l2: "tb_manager_get_security_level (sample_manager 50) = of_char (CHR ''2'')"
    by blast
  from l1 l2 c1 c2 secure_run existing_key_run ek1 ek2 w1 w2 show ?thesis by simp
qed

text \<open>
  C3. At security level '2' (the level the code provisions a key for), whatever call of
  a run touches \<^verbatim>\<open>authorized\<close> (opening it or writing to it), the calls before it
  include a successful \<^verbatim>\<open>tb_manager_ensure_key\<close>, the opening of \<^verbatim>\<open>key\<close> for writing,
  one \<^verbatim>\<open>write\<close> that took all \<open>TB_KEY_CHARS\<close> bytes of the key, and the close of that
  descriptor without error. So the grant is never written before the key is complete,
  and a run in which any of these steps fails never reaches the grant.
\<close>

theorem key_provisioned_before_grant:
  assumes run: "tb_device_authorize K mgr dev w = Some ((ok, dev'), w')"
    and sec: "tb_manager_get_security_level mgr = of_char (CHR ''2'')"
    and split: "new_events w w' = before @ g # after"
    and g: "is_grant_event g"
  shows "key_provisioned K dev before"
proof -
  let ?sec = "tb_manager_get_security_level mgr"
  from tb_device_authorize_summary [OF run]
  have s: "run_summary K ?sec dev ok (err w) (err w') (new_events w w')"
    by simp
  show ?thesis
  proof (rule run_summaryD [OF s])
    fix U KS GS and sec' :: int
    assume new: "new_events w w' = U @ KS @ GS"
      and pU: "\<forall>e\<in>set U. pre_phase_event e" and pK: "\<forall>e\<in>set KS. key_phase_event e"
      and secure: "?sec = of_char (CHR ''2'') \<Longrightarrow> \<exists>e\<in>set GS. is_grant_event e \<Longrightarrow>
           key_provisioned K dev KS \<and>
           (\<forall>u rep p c. EvEnsureKey u rep p c \<in> set KS \<longrightarrow>
              sec' = (if c then of_char (CHR ''1'') else of_char (CHR ''2'')))"
    have nU: "g \<notin> set U" using pU pre_phase_facts g by blast
    have nK: "g \<notin> set KS" using pK key_phase_facts g by blast
    from new split have eq: "(U @ KS) @ GS = before @ g # after" by simp
    from nU nK have "g \<notin> set (U @ KS)" by simp
    from prefix_before_first [OF eq this] obtain zs where b: "before = (U @ KS) @ zs" by blast
    with eq have "GS = zs @ g # after" by simp
    with g have "\<exists>e\<in>set GS. is_grant_event e" by auto
    from secure [OF sec this] have "key_provisioned K dev KS" by simp
    then show ?thesis
      by (rule key_provisioned_mono) (use b in auto)
  qed
qed

theorem key_provisioned_before_grant_witness:
  "tb_device_authorize 4 (sample_manager 50) sample_device (start secure_replies) =
     Some ((True, sample_device), secure_end) \<and>
   tb_manager_get_security_level (sample_manager 50) = of_char (CHR ''2'') \<and>
   is_grant_event (EvOpen (Attr ''authorized'') O_WRONLY (Returned 4)) \<and>
   key_provisioned 4 sample_device secure_before_grant"
proof -
  have sec: "tb_manager_get_security_level (sample_manager 50) = of_char (CHR ''2'')"
    by (simp add: tb_manager_get_security_level_def sample_manager_def)
  have g: "is_grant_event (EvOpen (Attr ''authorized'') O_WRONLY (Returned 4))"
    by simp
  from key_provisioned_before_grant [OF secure_run sec secure_new_events g] secure_run sec g
  show ?thesis
    by simp
qed

section \<open>The result, the error and the device record\<close>

text \<open>
  C4. The claim has \<^verbatim>\<open>tb_device_authorize\<close> set the device's status to Authorized on
  success and to AuthError on failure. The function never assigns through \<^verbatim>\<open>dev\<close>:
  after a successful run the status is what it was (Connected in the sample), and so it
  is after a failed one.
\<close>

theorem authorize_sets_no_status_counterexample:
  "tb_device_authorize 4 (sample_manager 49) sample_device (start user_replies) =
     Some ((True, sample_device), user_end) \<and>
   status sample_device \<noteq> Authorized \<and>
   tb_device_authorize 4 (sample_manager 49) sample_device (start foreign_uid_replies) =
     Some ((False, sample_device), foreign_uid_end) \<and>
   status sample_device \<noteq> AuthError"
  using user_run foreign_uid_run by (simp add: sample_device_def)

text \<open>
  C4, as amended. \<^verbatim>\<open>tb_device_authorize\<close> leaves the device record, its status
  included, as it was. Started with no error set, it returns TRUE exactly if no call of
  the run is a failing step (the directory open, the check of the uid, the provisioning
  of the key, the grant: \<open>failing_step\<close>); then no error is set and, at a level of 1 or
  more, the grant byte has been written (at a level other than '2', the byte of the level).
  When a step fails it returns FALSE, and the error it leaves is the one the code sets
  for the first failing step (\<open>step_error\<close>). The one first failing step for which
  \<open>step_error\<close> names no error is a \<^verbatim>\<open>write\<close> of the grant byte that returned 0.
\<close>

theorem authorize_result_and_error:
  assumes run: "tb_device_authorize K mgr dev w = Some ((ok, dev'), w')"
    and clean: "err w = None"
  shows "dev' = dev \<and>
         (ok \<longleftrightarrow> first_failure dev (errno w) (new_events w w') = None) \<and>
         (ok \<longrightarrow> err w' = None \<and>
            (1 \<le> tb_manager_get_security_level mgr \<longrightarrow>
               (\<exists>c. EvWrite (Some (Attr ''authorized'')) [c] (Returned 1) \<in> set (new_events w w') \<and>
                    (tb_manager_get_security_level mgr \<noteq> of_char (CHR ''2'') \<longrightarrow>
                       c = char_of (tb_manager_get_security_level mgr))))) \<and>
         (\<forall>en e x. first_failure dev (errno w) (new_events w w') = Some (en, e) \<and>
                   step_error en e = Some x \<longrightarrow> err w' = Some x) \<and>
         (\<forall>en e. first_failure dev (errno w) (new_events w w') = Some (en, e) \<and>
                 step_error en e = None \<longrightarrow>
                 (\<exists>c. e = EvWrite (Some (Attr ''authorized'')) [c] (Returned 0)))"
proof -
  let ?sec = "tb_manager_get_security_level mgr"
  from tb_device_authorize_summary [OF run]
  have d: "dev' = dev"
    and s: "run_summary K ?sec dev ok (err w) (err w') (new_events w w')"
    by simp_all
  from tb_device_authorize_acc [OF run] obtain evs where
    t: "trace w' = trace w @ evs"
    and f: "ok \<longleftrightarrow> first_failure dev (errno w) evs = None"
    and g: "ok \<longrightarrow> err w' = err w"
    and e: "err w = None \<longrightarrow>
           (\<forall>en e. first_failure dev (errno w) evs = Some (en, e) \<longrightarrow>
              (case step_error en e of
                 Some x \<Rightarrow> err w' = Some x
               | None \<Rightarrow> \<exists>c. e = EvWrite (Some (Attr ''authorized'')) [c] (Returned 0)))"
    unfolding accounted_def by auto
  from t have new: "new_events w w' = evs" by simp
  have A: "ok \<longleftrightarrow> first_failure dev (errno w) (new_events w w') = None"
    using f new by simp
  have B: "\<forall>en e x. first_failure dev (errno w) (new_events w w') = Some (en, e) \<and>
                   step_error en e = Some x \<longrightarrow> err w' = Some x"
    using e clean new by auto
  have B': "\<forall>en e. first_failure dev (errno w) (new_events w w') = Some (en, e) \<and>
                 step_error en e = None \<longrightarrow>
                 (\<exists>c. e = EvWrite (Some (Attr ''authorized'')) [c] (Returned 0))"
    using e clean new by auto
  have C: "ok \<longrightarrow> err w' = None" using g clean by simp
  have D: "ok \<longrightarrow> err w' = None \<and>
            (1 \<le> ?sec \<longrightarrow>
               (\<exists>c. EvWrite (Some (Attr ''authorized'')) [c] (Returned 1) \<in> set (new_events w w') \<and>
                    (?sec \<noteq> of_char (CHR ''2'') \<longrightarrow> c = char_of ?sec)))"
  proof (rule run_summaryD [OF s])
    fix U KS GS and sec' :: int
    assume n: "new_events w w' = U @ KS @ GS"
      and plain: "?sec \<noteq> of_char (CHR ''2'') \<Longrightarrow> KS = [] \<and> sec' = ?sec"
      and fin: "if ok then err w' = err w \<and>
                    (1 \<le> ?sec \<longrightarrow>
                       EvWrite (Some (Attr ''authorized'')) [char_of sec'] (Returned 1) \<in> set GS)
         else err w' \<noteq> None \<or>
              EvWrite (Some (Attr ''authorized'')) [char_of sec'] (Returned 0) \<in> set GS"
    show ?thesis
    proof (cases ok)
      case True
      have "\<exists>c. EvWrite (Some (Attr ''authorized'')) [c] (Returned 1) \<in> set (new_events w w') \<and>
                    (?sec \<noteq> of_char (CHR ''2'') \<longrightarrow> c = char_of ?sec)" if "1 \<le> ?sec"
      proof (intro exI [of _ "char_of sec'"] conjI impI)
        from fin True that
        show "EvWrite (Some (Attr ''authorized'')) [char_of sec'] (Returned 1)
                \<in> set (new_events w w')"
          using n by simp
        show "char_of sec' = char_of ?sec" if "?sec \<noteq> of_char (CHR ''2'')"
          using plain [OF that] by simp
      qed
      with True C show ?thesis by simp
    next
      case False
      then show ?thesis by simp
    qed
  qed
  show ?thesis
    by (rule conjI [OF d conjI [OF A conjI [OF D conjI [OF B B']]]])
qed

theorem authorize_result_and_error_witness:
  "tb_device_authorize 4 (sample_manager 49) sample_device (start user_replies) =
     Some ((True, sample_device), user_end) \<and>
   first_failure sample_device 0 (trace user_end) = None \<and>
   err user_end = None \<and>
   EvWrite (Some (Attr ''authorized'')) ''1'' (Returned 1) \<in> set (trace user_end) \<and>
   tb_device_authorize 4 (sample_manager 49) sample_device (start foreign_uid_replies) =
     Some ((False, sample_device), foreign_uid_end) \<and>
   first_failure sample_device 0 (trace foreign_uid_end) =
     Some (0, EvRead (Some (Attr ''unique_id'')) 4 (Returned 4) ''BB22'') \<and>
   err foreign_uid_end = Some (GError Unique_id_verification_failed G_IO_ERROR_FAILED) \<and>
   tb_device_authorize 4 (sample_manager 50) sample_device (start short_write_replies) =
     Some ((False, sample_device), short_write_end) \<and>
   first_failure sample_device 0 (trace short_write_end) =
     Some (4, EvWrite (Some (Attr ''key'')) ''abcd'' (Returned 2)) \<and>
   err short_write_end =
     Some (GError Io_error_while_writing_key_data (g_io_error_from_errno 4))"
proof -
  have clean: "err (start rs) = None" and en: "errno (start rs) = 0"
    and new: "new_events (start rs) w' = trace w'" for rs w'
    by (simp_all add: start_def new_events_def)
  have f1: "first_failure sample_device 0 (trace user_end) = None"
    by (simp add: user_end_def sample_device_def)
  have f2: "first_failure sample_device 0 (trace foreign_uid_end) =
     Some (0, EvRead (Some (Attr ''unique_id'')) 4 (Returned 4) ''BB22'')"
    by (simp add: foreign_uid_end_def sample_device_def)
  have f3: "first_failure sample_device 0 (trace short_write_end) =
     Some (4, EvWrite (Some (Attr ''key'')) ''abcd'' (Returned 2))"
    by (simp add: short_write_end_def sample_device_def EINTR_def)
  have lvl: "tb_manager_get_security_level (sample_manager 49) = 49"
    by (simp add: tb_manager_get_security_level_def sample_manager_def)
  from authorize_result_and_error [OF user_run clean] f1 lvl
  have u: "err user_end = None \<and>
           (\<exists>c. EvWrite (Some (Attr ''authorized'')) [c] (Returned 1) \<in> set (trace user_end) \<and>
                c = char_of (49::int))"
    by (simp add: en new)
  then have u': "EvWrite (Some (Attr ''authorized'')) ''1'' (Returned 1) \<in> set (trace user_end)"
    by (auto simp: char_of_49)
  from authorize_result_and_error [OF foreign_uid_run clean] f2
  have v: "err foreign_uid_end = Some (GError Unique_id_verification_failed G_IO_ERROR_FAILED)"
    by (simp add: en new)
  from authorize_result_and_error [OF short_write_run clean] f3
  have s: "err short_write_end =
     Some (GError Io_error_while_writing_key_data (g_io_error_from_errno 4))"
    by (simp add: en new)
  from user_run foreign_uid_run short_write_run f1 f2 f3 u u' v s show ?thesis
    by simp
qed

section \<open>Descriptors left open\<close>

text \<open>
  A run at level '2' in which the stored key is too short. Here the kernel gives \<^verbatim>\<open>key\<close>
  the descriptor number 5 (number 4, which \<^verbatim>\<open>unique_id\<close> had, is taken again by the
  time \<^verbatim>\<open>key\<close> is opened, or was never the lowest free one), and the key file 6. After
  the failed \<^verbatim>\<open>copy_key\<close> the function calls \<^verbatim>\<open>close (fd)\<close> on number 4, which is not
  open, and returns.
\<close>

definition short_key_replies :: "reply list" where
  "short_key_replies =
     [Ret 3, Ret 4, Data ''AA11'', Ret 0, KeyReply (Some ''/k'') False, Ret 5, Ret 6,
      Data ''ab'', Data [], Fail 9, Ret 0]"

definition short_key_end :: world where
  "short_key_end =
     \<lparr>script = [],
      trace = [EvAuthorize ''AA11'',
               EvOpen (Dir ''/sys/tb/0-1'') O_RDONLY (Returned 3),
               EvOpen (Attr ''unique_id'') O_RDONLY (Returned 4),
               EvRead (Some (Attr ''unique_id'')) 4 (Returned 4) ''AA11'',
               EvClose 4 (Some (Attr ''unique_id'')) (Returned 0),
               EvEnsureKey ''AA11'' False (Some ''/k'') False,
               EvOpen (Attr ''key'') O_WRONLY (Returned 5),
               EvOpen (File ''/k'') O_RDONLY (Returned 6),
               EvRead (Some (File ''/k'')) 4 (Returned 2) ''ab'',
               EvRead (Some (File ''/k'')) 2 (Returned 0) [],
               EvClose 4 None (Failed 9),
               EvClose 3 (Some (Dir ''/sys/tb/0-1'')) (Returned 0)],
      fds = [5 \<mapsto> Attr ''key'', 6 \<mapsto> File ''/k''], errno = 9,
      err = Some (GError Could_not_read_entire_key_from_disk G_IO_ERROR_FAILED)\<rparr>"

lemma short_key_run:
  "tb_device_authorize 4 (sample_manager 50) sample_device (start short_key_replies) =
     Some ((False, sample_device), short_key_end)"
  by (simp add: run_defs sample_manager_def sample_device_def short_key_replies_def
        short_key_end_def fun_eq_iff)

text \<open>
  C6. The claim has every descriptor opened during an attempt closed before the attempt
  returns. \<^verbatim>\<open>copy_key\<close> never closes the descriptor it opens on the key file: after the
  successful run at level '2' that descriptor (5) is still open. On the path of a failed
  \<^verbatim>\<open>copy_key\<close> the function closes \<^verbatim>\<open>fd\<close>, the number \<^verbatim>\<open>unique_id\<close> had, instead of
  \<^verbatim>\<open>keyfd\<close>: in the run with the short key the descriptor of \<^verbatim>\<open>key\<close> (5) and that of
  the key file (6) are both open when the function returns.
\<close>

theorem authorize_leaves_descriptors_open:
  "tb_device_authorize 4 (sample_manager 50) sample_device (start secure_replies) =
     Some ((True, sample_device), secure_end) \<and>
   fds secure_end 5 = Some (File ''/k'') \<and>
   tb_device_authorize 4 (sample_manager 50) sample_device (start short_key_replies) =
     Some ((False, sample_device), short_key_end) \<and>
   fds short_key_end 5 = Some (Attr ''key'') \<and>
   fds short_key_end 6 = Some (File ''/k'')"
  using secure_run short_key_run by (simp add: secure_end_def short_key_end_def)

section \<open>The \<^verbatim>\<open>authorize\<close> command\<close>

text \<open>
  When \<^verbatim>\<open>tb_device_authorize\<close> fails, \<^verbatim>\<open>authorize_device\<close> returns at once: the state
  it leaves is the one the engine left, so \<^verbatim>\<open>tb_manager_store\<close> was not called, and the
  device record, its policy included, is unchanged.
\<close>

lemma authorize_device_failure_stores_nothing:
  assumes "parse_ok c" and "2 \<le> length (argv c)"
    and "tb_manager_lookup mgr (argv c ! 1) = Some dev"
    and "tb_device_authorize K mgr dev (w\<lparr>err := None\<rparr>) = Some ((False, dev'), w1)"
  shows "authorize_device K mgr c w = Some ((print_error_and_fail w1, Some dev'), w1)"
  using assms by (simp add: authorize_device_def Let_def)

text \<open>
  The grant write returns 0: \<^verbatim>\<open>tb_write_char\<close> returns FALSE and sets no error.
\<close>

definition zero_write_replies :: "reply list" where
  "zero_write_replies = [Ret 3, Ret 4, Data ''AA11'', Ret 0, Ret 4, Ret 0, Ret 0, Ret 0]"

definition zero_write_end :: world where
  "zero_write_end =
     \<lparr>script = [],
      trace = [EvAuthorize ''AA11'',
               EvOpen (Dir ''/sys/tb/0-1'') O_RDONLY (Returned 3),
               EvOpen (Attr ''unique_id'') O_RDONLY (Returned 4),
               EvRead (Some (Attr ''unique_id'')) 4 (Returned 4) ''AA11'',
               EvClose 4 (Some (Attr ''unique_id'')) (Returned 0),
               EvOpen (Attr ''authorized'') O_WRONLY (Returned 4),
               EvWrite (Some (Attr ''authorized'')) ''1'' (Returned 0),
               EvClose 4 (Some (Attr ''authorized'')) (Returned 0),
               EvClose 3 (Some (Dir ''/sys/tb/0-1'')) (Returned 0)],
      fds = Map.empty, errno = 0, err = None\<rparr>"

lemma zero_write_run:
  "tb_device_authorize 4 (sample_manager 49) sample_device (start zero_write_replies) =
     Some ((False, sample_device), zero_write_end)"
  by (simp add: run_defs sample_manager_def sample_device_def zero_write_replies_def
        zero_write_end_def char_of_49 fun_eq_iff)

text \<open>
  C10. The claim has the \<^verbatim>\<open>authorize\<close> command exit with a failure status whenever
  authorization fails. Where the grant write returns 0 the engine fails with no error
  set, and the command, on its way to \<^verbatim>\<open>EXIT_FAILURE\<close>, reads \<^verbatim>\<open>error->message\<close>
  through a null pointer. (Nothing is stored and no policy is changed in that run.)
\<close>

theorem authorize_device_reads_null_error:
  "authorize_device 4 (sample_manager 49)
     \<lparr>parse_ok = True, argv = [''authorize'', ''AA11''], do_store = True, do_auto = True\<rparr>
     (start zero_write_replies) =
   Some ((Null_dereference, Some sample_device), zero_write_end)"
proof -
  have s: "(start zero_write_replies)\<lparr>err := None\<rparr> = start zero_write_replies"
    by (simp add: start_def)
  have "authorize_device 4 (sample_manager 49)
     \<lparr>parse_ok = True, argv = [''authorize'', ''AA11''], do_store = True, do_auto = True\<rparr>
     (start zero_write_replies) =
   Some ((print_error_and_fail zero_write_end, Some sample_device), zero_write_end)"
  proof (rule authorize_device_failure_stores_nothing [where dev = sample_device])
    show "tb_manager_lookup (sample_manager 49)
            (argv \<lparr>parse_ok = True, argv = [''authorize'', ''AA11''], do_store = True,
                     do_auto = True\<rparr> ! 1) = Some sample_device"
      by (simp add: tb_manager_lookup_def sample_manager_def)
    show "tb_device_authorize 4 (sample_manager 49) sample_device
            ((start zero_write_replies)\<lparr>err := None\<rparr>) =
          Some ((False, sample_device), zero_write_end)"
      by (simp only: s zero_write_run)
  qed simp_all
  then show ?thesis
    by (simp add: print_error_and_fail_def zero_write_end_def)
qed

end
